theory Spec2Isabelle
  imports Complex_Main "HOL-Library.Word" "HOL-Library.Log_Nat"
begin

unbundle bit_operations_syntax

section \<open>Constants of the test program\<close>

definition WIDTH :: int where "WIDTH = 800"
definition HEIGHT :: int where "HEIGHT = 600"
definition NUM_INTERPOLATION_POINTS :: nat where "NUM_INTERPOLATION_POINTS = 20000"
definition NUM_VERIFIED_ITERATIONS :: nat where "NUM_VERIFIED_ITERATIONS = 10"
definition MISSING_VALUE_THRESHOLD :: int where "MISSING_VALUE_THRESHOLD = 10000"

section \<open>Floating-point values\<close>

text \<open>
  A \<open>float\<close> or \<open>double\<close> is modelled by the value it denotes: a finite rational, one of the
  two infinities, or a NaN. The two zeros denote the same value and every NaN is one value:
  the program never looks at the sign of a zero, and it reads NaN payloads only through the
  integer view of the raster, which is modelled on the bit patterns themselves.
\<close>

datatype fpval = Finite rat | PosInf | NegInf | NaN

subsection \<open>Bit patterns (IEEE 754 binary32 and binary64)\<close>

text \<open>\<open>ieee_value w f s e m\<close> is the value of the pattern with sign \<open>s\<close>, biased exponent \<open>e\<close>
  (of \<open>w\<close> bits) and fraction \<open>m\<close> (of \<open>f\<close> bits).\<close>

definition ieee_value :: "nat \<Rightarrow> nat \<Rightarrow> bool \<Rightarrow> nat \<Rightarrow> nat \<Rightarrow> fpval" where
  "ieee_value w f s e m =
     (if e = 2 ^ w - 1 then
        (if m = 0 then (if s then NegInf else PosInf) else NaN)
      else if e = 0 then
        Finite ((if s then - 1 else 1) * of_nat m * 2 powi (2 - 2 ^ (w - 1) - int f))
      else
        Finite ((if s then - 1 else 1) * of_nat (2 ^ f + m) *
                2 powi (int e - (2 ^ (w - 1) - 1) - int f)))"

definition float_of_bits :: "32 word \<Rightarrow> fpval" where
  "float_of_bits v =
     ieee_value 8 23 (bit v 31) (unat (take_bit 8 (drop_bit 23 v))) (unat (take_bit 23 v))"

definition double_of_bits :: "64 word \<Rightarrow> fpval" where
  "double_of_bits v =
     ieee_value 11 52 (bit v 63) (unat (take_bit 11 (drop_bit 52 v))) (unat (take_bit 52 v))"

subsection \<open>Rounding to \<open>double\<close> (round to nearest, ties to even)\<close>

definition round_half_even :: "rat \<Rightarrow> int" where
  "round_half_even x =
     (let n = \<lfloor>x\<rfloor>; d = x - of_int n
      in if d < 1 / 2 then n
         else if 1 / 2 < d then n + 1
         else if even n then n else n + 1)"

text \<open>The exponent of a positive rational: \<open>2 powi ilog2 q \<le> q < 2 powi (ilog2 q + 1)\<close>.\<close>

definition ilog2 :: "rat \<Rightarrow> int" where
  "ilog2 q = (if 1 \<le> q then bitlen \<lfloor>q\<rfloor> - 1 else - bitlen (\<lceil>1 / q\<rceil> - 1))"

text \<open>The result is a multiple of the unit in the last place of the binade of \<open>q\<close> (of the
  subnormal binade below \<open>2 powi (- 1022)\<close>), and overflows to an infinity when the rounded
  magnitude reaches \<open>2 ^ 1024\<close>.\<close>

definition round_double :: "rat \<Rightarrow> fpval" where
  "round_double q =
     (if q = 0 then Finite 0
      else
        let e = max (ilog2 \<bar>q\<bar>) (- 1022);
            u = 2 powi (e - 52);
            r = of_int (round_half_even (q / u)) * u
        in if 2 ^ 1024 \<le> \<bar>r\<bar> then (if 0 < q then PosInf else NegInf) else Finite r)"

subsection \<open>Arithmetic on \<open>double\<close>\<close>

text \<open>The exact sum and product on the extended values; an operation of the program is the
  exact operation followed by one rounding.\<close>

fun ex_add :: "fpval \<Rightarrow> fpval \<Rightarrow> fpval" where
  "ex_add NaN _ = NaN"
| "ex_add _ NaN = NaN"
| "ex_add (Finite a) (Finite b) = Finite (a + b)"
| "ex_add PosInf NegInf = NaN"
| "ex_add NegInf PosInf = NaN"
| "ex_add PosInf _ = PosInf"
| "ex_add NegInf _ = NegInf"
| "ex_add _ PosInf = PosInf"
| "ex_add _ NegInf = NegInf"

definition inf_times :: "bool \<Rightarrow> rat \<Rightarrow> fpval" where
  "inf_times positive q =
     (if q = 0 then NaN else if (0 < q) = positive then PosInf else NegInf)"

fun ex_mul :: "fpval \<Rightarrow> fpval \<Rightarrow> fpval" where
  "ex_mul NaN _ = NaN"
| "ex_mul _ NaN = NaN"
| "ex_mul (Finite a) (Finite b) = Finite (a * b)"
| "ex_mul PosInf (Finite b) = inf_times True b"
| "ex_mul NegInf (Finite b) = inf_times False b"
| "ex_mul (Finite a) PosInf = inf_times True a"
| "ex_mul (Finite a) NegInf = inf_times False a"
| "ex_mul PosInf PosInf = PosInf"
| "ex_mul NegInf NegInf = PosInf"
| "ex_mul PosInf NegInf = NegInf"
| "ex_mul NegInf PosInf = NegInf"

fun fp_neg :: "fpval \<Rightarrow> fpval" where
  "fp_neg (Finite a) = Finite (- a)"
| "fp_neg PosInf = NegInf"
| "fp_neg NegInf = PosInf"
| "fp_neg NaN = NaN"

fun rnd :: "fpval \<Rightarrow> fpval" where
  "rnd (Finite q) = round_double q"
| "rnd v = v"

definition fp_add :: "fpval \<Rightarrow> fpval \<Rightarrow> fpval" where
  "fp_add a b = rnd (ex_add a b)"

definition fp_sub :: "fpval \<Rightarrow> fpval \<Rightarrow> fpval" where
  "fp_sub a b = rnd (ex_add a (fp_neg b))"

text \<open>\<open>std::fma(a, b, c)\<close>: \<open>a * b + c\<close> with a single rounding.\<close>

definition fp_fma :: "fpval \<Rightarrow> fpval \<Rightarrow> fpval \<Rightarrow> fpval" where
  "fp_fma a b c = rnd (ex_add (ex_mul a b) c)"

fun fp_floor :: "fpval \<Rightarrow> fpval" where
  "fp_floor (Finite a) = Finite (of_int \<lfloor>a\<rfloor>)"
| "fp_floor v = v"

fun fp_abs :: "fpval \<Rightarrow> fpval" where
  "fp_abs (Finite a) = Finite \<bar>a\<bar>"
| "fp_abs NegInf = PosInf"
| "fp_abs v = v"

text \<open>Truncation towards zero, as in the conversion of a floating-point value to an integer.\<close>

definition trunc :: "rat \<Rightarrow> int" where
  "trunc q = (if 0 \<le> q then \<lfloor>q\<rfloor> else \<lceil>q\<rceil>)"

text \<open>\<open>std::fmod(x, y)\<close>: the exact remainder \<open>x - n * y\<close> with \<open>n\<close> the quotient truncated
  towards zero; a NaN when \<open>x\<close> is infinite or \<open>y\<close> is zero.\<close>

fun fp_fmod :: "fpval \<Rightarrow> fpval \<Rightarrow> fpval" where
  "fp_fmod NaN _ = NaN"
| "fp_fmod _ NaN = NaN"
| "fp_fmod PosInf _ = NaN"
| "fp_fmod NegInf _ = NaN"
| "fp_fmod (Finite a) PosInf = Finite a"
| "fp_fmod (Finite a) NegInf = Finite a"
| "fp_fmod (Finite a) (Finite b) =
     (if b = 0 then NaN else Finite (a - of_int (trunc (a / b)) * b))"

text \<open>The comparison operators of C++ on floating-point operands: every comparison with a
  NaN is false, except \<open>!=\<close>, which is true.\<close>

fun fp_lt :: "fpval \<Rightarrow> fpval \<Rightarrow> bool" where
  "fp_lt NaN _ = False"
| "fp_lt _ NaN = False"
| "fp_lt (Finite a) (Finite b) = (a < b)"
| "fp_lt PosInf _ = False"
| "fp_lt _ PosInf = True"
| "fp_lt _ NegInf = False"
| "fp_lt NegInf _ = True"

definition fp_ne :: "fpval \<Rightarrow> fpval \<Rightarrow> bool" where
  "fp_ne a b = (a = NaN \<or> b = NaN \<or> a \<noteq> b)"

definition fp_ge :: "fpval \<Rightarrow> fpval \<Rightarrow> bool" where
  "fp_ge a b = (a \<noteq> NaN \<and> b \<noteq> NaN \<and> \<not> fp_lt a b)"

text \<open>\<open>std::max(a, b)\<close> is \<open>(a < b) ? b : a\<close>.\<close>

definition fp_max :: "fpval \<Rightarrow> fpval \<Rightarrow> fpval" where
  "fp_max a b = (if fp_lt a b then b else a)"

definition max_i32 :: "32 word \<Rightarrow> 32 word \<Rightarrow> 32 word" where
  "max_i32 a b = (if sint a < sint b then b else a)"

section \<open>Outcomes of a call\<close>

text \<open>A call returns, or ends the process with \<open>exit\<close>, or lets a \<open>std::bad_alloc\<close> escape, or
  has no defined behaviour (a read outside a buffer, a signed overflow, a conversion of a
  value that does not fit the integer type).\<close>

datatype 'a outcome = Returns 'a | Exits int | Throws_bad_alloc | Undefined

fun obind :: "'a outcome \<Rightarrow> ('a \<Rightarrow> 'b outcome) \<Rightarrow> 'b outcome" where
  "obind (Returns x) f = f x"
| "obind (Exits n) f = Exits n"
| "obind Throws_bad_alloc f = Throws_bad_alloc"
| "obind Undefined f = Undefined"

text \<open>A value of type \<open>int\<close> (32 bits); a result outside the range is a signed overflow.\<close>

definition int32 :: "int \<Rightarrow> int outcome" where
  "int32 n = (if - (2 ^ 31) \<le> n \<and> n < 2 ^ 31 then Returns n else Undefined)"

text \<open>\<open>(int) d\<close> for a \<open>double\<close> \<open>d\<close>.\<close>

fun to_int :: "fpval \<Rightarrow> int outcome" where
  "to_int (Finite q) = int32 (trunc q)"
| "to_int v = Undefined"

text \<open>\<open>p[i]\<close> for a buffer \<open>p\<close>.\<close>

definition load :: "'a list \<Rightarrow> int \<Rightarrow> 'a outcome" where
  "load p i = (if 0 \<le> i \<and> i < int (length p) then Returns (p ! nat i) else Undefined)"

section \<open>The base class \<open>TestCase\<close>\<close>

datatype endian = little | big

record TestCase =
  useNaN :: bool
  byteOrder :: endian
  rasterFile :: string
  coordinatesFile :: string
  expectedResultsFile :: string
  errorStatistics :: "fpval list"
  nodataMismatches :: "int list"

text \<open>\<open>TestCase::success\<close>: the loop over the iterations, with its early \<open>return false\<close>.\<close>

function success_loop :: "'a TestCase_scheme \<Rightarrow> nat \<Rightarrow> bool" where
  "success_loop t i =
     (if i < NUM_VERIFIED_ITERATIONS then
        (if nodataMismatches t ! i \<noteq> 0 then
           (if i < 8 then False else success_loop t (i + 1))
         else success_loop t (i + 1))
      else True)"
  by pat_completeness auto
termination
  by (relation "measure (\<lambda>(t, i). NUM_VERIFIED_ITERATIONS - i)") auto

declare success_loop.simps [simp del]

definition success :: "'a TestCase_scheme \<Rightarrow> bool" where
  "success t = success_loop t 0"

text \<open>\<open>TestCase::resultEquals\<close>: both arrays are compared with the \<open>!=\<close> of their element
  type, and the first difference returns \<open>false\<close>.\<close>

function resultEquals_loop :: "'a TestCase_scheme \<Rightarrow> 'b TestCase_scheme \<Rightarrow> nat \<Rightarrow> bool" where
  "resultEquals_loop t other i =
     (if i < NUM_VERIFIED_ITERATIONS then
        (if fp_ne (errorStatistics t ! i) (errorStatistics other ! i) \<or>
            nodataMismatches t ! i \<noteq> nodataMismatches other ! i
         then False
         else resultEquals_loop t other (i + 1))
      else True)"
  by pat_completeness auto
termination
  by (relation "measure (\<lambda>(t, other, i). NUM_VERIFIED_ITERATIONS - i)") auto

declare resultEquals_loop.simps [simp del]

definition resultEquals :: "'a TestCase_scheme \<Rightarrow> 'b TestCase_scheme \<Rightarrow> bool" where
  "resultEquals t other = resultEquals_loop t other 0"

text \<open>The constructor: the paths of the three files, and both arrays set to zero.\<close>

definition TestCase_new :: "bool \<Rightarrow> endian \<Rightarrow> TestCase" where
  "TestCase_new testNaN testByteOrder =
     (let directory = ''../generated-data'' @ ''/'' @ (if testNaN then ''nan'' else ''nodata'')
      in \<lparr>useNaN = testNaN,
          byteOrder = testByteOrder,
          rasterFile = directory @ ''/'' @
            (if testByteOrder = little then ''little-endian.raw'' else ''big-endian.raw''),
          coordinatesFile = directory @ ''/'' @ ''coordinates.raw'',
          expectedResultsFile = directory @ ''/'' @ ''expected-results.raw'',
          errorStatistics = replicate NUM_VERIFIED_ITERATIONS (Finite 0),
          nodataMismatches = replicate NUM_VERIFIED_ITERATIONS 0\<rparr>)"

section \<open>Reading the files\<close>

text \<open>What the program finds on the machine it runs on: the content of each file that can be
  opened, the native byte order, and whether an allocation of a given size succeeds.\<close>

record host =
  files :: "string \<Rightarrow> 8 word list option"
  native :: endian
  allocates :: "nat \<Rightarrow> bool"

text \<open>\<open>readAllBytes\<close>. A stream that is not open gives \<open>NULL\<close>. The buffer comes from a plain
  \<open>new char[numBytes]\<close>, which reports a failed allocation by throwing \<open>std::bad_alloc\<close> and
  never by a null pointer. \<open>stream.read\<close> of more bytes than the file holds leaves the stream
  not \<open>good()\<close>, and the buffer is dropped.\<close>

definition readAllBytes :: "host \<Rightarrow> string \<Rightarrow> nat \<Rightarrow> 8 word list option outcome" where
  "readAllBytes H file numBytes =
     (case files H file of
        None \<Rightarrow> Returns None
      | Some content \<Rightarrow>
          if \<not> allocates H numBytes then Throws_bad_alloc
          else if length content < numBytes then Returns None
          else Returns (Some (take numBytes content)))"

text \<open>A buffer of bytes seen as an array of wider integers, by the byte order of the host.\<close>

definition word_of_bytes :: "endian \<Rightarrow> 8 word list \<Rightarrow> 'a::len word" where
  "word_of_bytes order bs =
     foldl (\<lambda>acc b. push_bit 8 acc OR ucast b) 0 (if order = big then bs else rev bs)"

function chunks :: "nat \<Rightarrow> 'a list \<Rightarrow> 'a list list" where
  "chunks n xs = (if n = 0 \<or> length xs < n then [] else take n xs # chunks n (drop n xs))"
  by pat_completeness auto
termination
  by (relation "measure (\<lambda>(n, xs). length xs)") auto

declare chunks.simps [simp del]

definition swap32 :: "32 word \<Rightarrow> 32 word" where
  "swap32 v = drop_bit 24 v
           OR (push_bit 8 v AND 0x00FF0000)
           OR (drop_bit 8 v AND 0x0000FF00)
           OR push_bit 24 v"

definition swap64 :: "64 word \<Rightarrow> 64 word" where
  "swap64 v = drop_bit 56 v
           OR (push_bit 40 v AND 0x00FF000000000000)
           OR (push_bit 24 v AND 0x0000FF0000000000)
           OR (push_bit 8 v AND 0x000000FF00000000)
           OR (drop_bit 8 v AND 0x00000000FF000000)
           OR (drop_bit 24 v AND 0x0000000000FF0000)
           OR (drop_bit 40 v AND 0x000000000000FF00)
           OR push_bit 56 v"

text \<open>\<open>TestCase::loadRaster\<close>: the raster stays a sequence of 32-bit patterns, which the NaN
  variant reads both as \<open>float\<close> and as \<open>int32_t\<close>.\<close>

definition loadRaster :: "host \<Rightarrow> 'a TestCase_scheme \<Rightarrow> 32 word list option outcome" where
  "loadRaster H t =
     obind (readAllBytes H (rasterFile t) (nat (WIDTH * HEIGHT) * 4)) (\<lambda>bytes.
       case bytes of
         None \<Rightarrow> Returns None
       | Some bytes \<Rightarrow>
           let p = map (word_of_bytes (native H)) (chunks 4 bytes)
           in Returns (Some (if native H \<noteq> byteOrder t then map swap32 p else p)))"

definition toNativeByteOrder :: "host \<Rightarrow> 64 word list \<Rightarrow> 64 word list" where
  "toNativeByteOrder H p = (if native H = little then map swap64 p else p)"

definition loadDoubles :: "host \<Rightarrow> string \<Rightarrow> nat \<Rightarrow> fpval list option outcome" where
  "loadDoubles H file numValues =
     obind (readAllBytes H file (numValues * 8)) (\<lambda>bytes.
       case bytes of
         None \<Rightarrow> Returns None
       | Some bytes \<Rightarrow>
           Returns (Some (map double_of_bits
             (toNativeByteOrder H (map (word_of_bytes (native H)) (chunks 8 bytes))))))"

definition loadCoordinates :: "host \<Rightarrow> 'a TestCase_scheme \<Rightarrow> fpval list option outcome" where
  "loadCoordinates H t = loadDoubles H (coordinatesFile t) (2 * NUM_INTERPOLATION_POINTS)"

definition loadExpectedResults :: "host \<Rightarrow> 'a TestCase_scheme \<Rightarrow> fpval list option outcome" where
  "loadExpectedResults H t =
     loadDoubles H (expectedResultsFile t) (NUM_INTERPOLATION_POINTS * NUM_VERIFIED_ITERATIONS)"

section \<open>The interpolation loop shared by the two variants\<close>

text \<open>The variables of \<open>computeAndCompare\<close> that change while it runs: the two arrays of
  the object (\<open>errorStatistics\<close> and \<open>nodataMismatches\<close>), the coordinates, the cursor in the
  expected results, and \<open>stats\<close>.\<close>

record frame =
  statistics :: "fpval list"
  mismatches :: "int list"
  coordinates :: "fpval list"
  expectedResultCursor :: nat
  stats :: fpval

text \<open>The test that guards the four reads of the raster.\<close>

definition out_of_bounds :: "int \<Rightarrow> bool" where
  "out_of_bounds offset = (offset < 0 \<or> offset \<ge> (HEIGHT - 1) * WIDTH + (WIDTH - 1))"

definition base_offset :: "fpval \<Rightarrow> fpval \<Rightarrow> int outcome" where
  "base_offset xb yb =
     obind (to_int yb) (\<lambda>yi.
     obind (to_int xb) (\<lambda>xi.
     obind (int32 (WIDTH * yi)) (\<lambda>row.
     obind (int32 (row + xi)) (\<lambda>offset.
       if out_of_bounds offset then Exits 1 else Returns offset))))"

text \<open>The coordinates of point \<open>i\<close>, their integer parts and the offset of the upper left
  cell, with the guard (the same lines in both variants).\<close>

definition locate ::
  "fpval list \<Rightarrow> nat \<Rightarrow> (fpval \<times> fpval \<times> fpval \<times> fpval \<times> int) outcome" where
  "locate coords i =
     (let ix = push_bit 1 i; iy = ix OR 1 in
      obind (load coords (int ix)) (\<lambda>x.
      obind (load coords (int iy)) (\<lambda>y.
      let xb = fp_floor x; yb = fp_floor y in
      obind (base_offset xb yb) (\<lambda>offset.
        Returns (x, y, xb, yb, offset)))))"

text \<open>The four cells \<open>raster[offset]\<close>, \<open>raster[offset + 1]\<close>, and the same in the next row.\<close>

definition corners ::
  "32 word list \<Rightarrow> int \<Rightarrow> (32 word \<times> 32 word \<times> 32 word \<times> 32 word) outcome" where
  "corners raster offset =
     obind (load raster offset) (\<lambda>p00.
     obind (load raster (offset + 1)) (\<lambda>p01.
     obind (load raster (offset + WIDTH)) (\<lambda>p10.
     obind (load raster (offset + WIDTH + 1)) (\<lambda>p11.
       Returns (p00, p01, p10, p11)))))"

definition fetch ::
  "32 word list \<Rightarrow> fpval list \<Rightarrow> nat \<Rightarrow>
   (fpval \<times> fpval \<times> fpval \<times> fpval \<times> 32 word \<times> 32 word \<times> 32 word \<times> 32 word) outcome" where
  "fetch raster coords i =
     obind (locate coords i) (\<lambda>(x, y, xb, yb, offset).
     obind (corners raster offset) (\<lambda>(p00, p01, p10, p11).
       Returns (x, y, xb, yb, p00, p01, p10, p11)))"

text \<open>The bilinear interpolation (the same lines in both variants).\<close>

definition interpolate ::
  "fpval \<Rightarrow> fpval \<Rightarrow> fpval \<Rightarrow> fpval \<Rightarrow> fpval \<Rightarrow> fpval \<Rightarrow> fpval \<Rightarrow> fpval \<Rightarrow> fpval" where
  "interpolate v00 v01 v10 v11 x y xb yb =
     (let xf = fp_sub x xb;
          yf = fp_sub y yb;
          v0 = fp_fma (fp_sub v01 v00) xf v00;
          v1 = fp_fma (fp_sub v11 v10) xf v10
      in fp_fma (fp_sub v1 v0) yf v0)"

text \<open>\<open>nodataMismatches[it]++\<close>.\<close>

definition count_mismatch :: "nat \<Rightarrow> frame \<Rightarrow> frame" where
  "count_mismatch it L = L\<lparr>mismatches := (mismatches L)[it := mismatches L ! it + 1]\<rparr>"

text \<open>The comparison of a computed value with the expected one (the same lines in both
  variants).\<close>

definition compare_valid :: "nat \<Rightarrow> fpval \<Rightarrow> fpval \<Rightarrow> frame \<Rightarrow> frame" where
  "compare_valid it result expected L =
     (if fp_ge expected (Finite (of_int MISSING_VALUE_THRESHOLD)) then count_mismatch it L
      else L\<lparr>stats := fp_max (stats L) (fp_abs (fp_sub result expected))\<rparr>)"

text \<open>The last three lines of the loop body: the new coordinates and the next expected
  result.\<close>

definition advance :: "nat \<Rightarrow> fpval \<Rightarrow> fpval \<Rightarrow> fpval \<Rightarrow> frame \<Rightarrow> frame" where
  "advance i x y result L =
     (let ix = push_bit 1 i; iy = ix OR 1 in
      L\<lparr>coordinates := (coordinates L)
           [ix := fp_fmod (fp_abs (fp_add x result)) (Finite (of_int (WIDTH - 1))),
            iy := fp_fmod (fp_abs (fp_add y result)) (Finite (of_int (HEIGHT - 1)))],
        expectedResultCursor := expectedResultCursor L + 1\<rparr>)"

function points_loop ::
  "(nat \<Rightarrow> nat \<Rightarrow> frame \<Rightarrow> frame outcome) \<Rightarrow> nat \<Rightarrow> nat \<Rightarrow> frame \<Rightarrow> frame outcome" where
  "points_loop body it i L =
     (if i < NUM_INTERPOLATION_POINTS then
        (case body it i L of
           Returns L' \<Rightarrow> points_loop body it (i + 1) L'
         | Exits n \<Rightarrow> Exits n
         | Throws_bad_alloc \<Rightarrow> Throws_bad_alloc
         | Undefined \<Rightarrow> Undefined)
      else Returns L)"
  by pat_completeness auto
termination
  by (relation "measure (\<lambda>(body, it, i, L). NUM_INTERPOLATION_POINTS - i)") auto

declare points_loop.simps [simp del]

function iterations_loop ::
  "(nat \<Rightarrow> nat \<Rightarrow> frame \<Rightarrow> frame outcome) \<Rightarrow> nat \<Rightarrow> frame \<Rightarrow> frame outcome" where
  "iterations_loop body it L =
     (if it < NUM_VERIFIED_ITERATIONS then
        (case points_loop body it 0 (L\<lparr>stats := statistics L ! it\<rparr>) of
           Returns L' \<Rightarrow>
             iterations_loop body (it + 1)
               (L'\<lparr>statistics := (statistics L')[it := stats L']\<rparr>)
         | Exits n \<Rightarrow> Exits n
         | Throws_bad_alloc \<Rightarrow> Throws_bad_alloc
         | Undefined \<Rightarrow> Undefined)
      else Returns L)"
  by pat_completeness auto
termination
  by (relation "measure (\<lambda>(body, it, L). NUM_VERIFIED_ITERATIONS - it)") auto

declare iterations_loop.simps [simp del]

text \<open>The two loops on loaded data; \<open>stats\<close> is assigned at the start of each iteration,
  before it is read.\<close>

definition run ::
  "(32 word list \<Rightarrow> fpval list \<Rightarrow> nat \<Rightarrow> nat \<Rightarrow> frame \<Rightarrow> frame outcome) \<Rightarrow>
   32 word list \<Rightarrow> fpval list \<Rightarrow> fpval list \<Rightarrow> TestCase \<Rightarrow> TestCase outcome" where
  "run body raster coords expectedResults t =
     obind (iterations_loop (body raster expectedResults) 0
              \<lparr>statistics = errorStatistics t, mismatches = nodataMismatches t,
               coordinates = coords, expectedResultCursor = 0, stats = Finite 0\<rparr>)
           (\<lambda>L. Returns (t\<lparr>errorStatistics := statistics L, nodataMismatches := mismatches L\<rparr>))"

text \<open>The three nested tests of \<open>computeAndCompare\<close> (the same lines in both variants): each
  file is loaded only when the ones before it were, and a \<open>NULL\<close> skips everything else.\<close>

definition computeAndCompare ::
  "(32 word list \<Rightarrow> fpval list \<Rightarrow> nat \<Rightarrow> nat \<Rightarrow> frame \<Rightarrow> frame outcome) \<Rightarrow>
   host \<Rightarrow> TestCase \<Rightarrow> TestCase outcome" where
  "computeAndCompare body H t =
     obind (loadRaster H t) (\<lambda>raster.
       case raster of
         None \<Rightarrow> Returns t
       | Some raster \<Rightarrow>
     obind (loadCoordinates H t) (\<lambda>coords.
       case coords of
         None \<Rightarrow> Returns t
       | Some coords \<Rightarrow>
     obind (loadExpectedResults H t) (\<lambda>expectedResults.
       case expectedResults of
         None \<Rightarrow> Returns t
       | Some expectedResults \<Rightarrow>
       run body raster coords expectedResults t)))"

section \<open>The variant \<open>TestNaN\<close>\<close>

definition FIRST_QUIET_NAN :: "32 word" where "FIRST_QUIET_NAN = 0x7FC00000"

definition TestNaN_UNKNOWN :: "32 word" where "TestNaN_UNKNOWN = FIRST_QUIET_NAN"
definition TestNaN_CLOUD :: "32 word" where "TestNaN_CLOUD = FIRST_QUIET_NAN + 1"
definition TestNaN_LAND :: "32 word" where "TestNaN_LAND = FIRST_QUIET_NAN + 2"
definition TestNaN_NO_PASS :: "32 word" where "TestNaN_NO_PASS = FIRST_QUIET_NAN + 3"

text \<open>\<open>(missingValueReason - FIRST_QUIET_NAN) + MISSING_VALUE_THRESHOLD\<close>, computed in \<open>int\<close>
  and converted to \<open>double\<close> (exactly, as every \<open>int\<close> is a \<open>double\<close>).\<close>

definition nodata_of :: "32 word \<Rightarrow> fpval outcome" where
  "nodata_of missingValueReason =
     obind (int32 (sint missingValueReason - sint FIRST_QUIET_NAN)) (\<lambda>d.
     obind (int32 (d + MISSING_VALUE_THRESHOLD)) (\<lambda>n.
       Returns (Finite (of_int n))))"

text \<open>The body of the inner loop. The interpolation is computed first; when it is a NaN, the
  reason is the largest of the four cells read as signed integers.\<close>

definition TestNaN_point ::
  "32 word list \<Rightarrow> fpval list \<Rightarrow> nat \<Rightarrow> nat \<Rightarrow> frame \<Rightarrow> frame outcome" where
  "TestNaN_point raster expectedResults it i L =
     obind (fetch raster (coordinates L) i) (\<lambda>(x, y, xb, yb, p00, p01, p10, p11).
     let result = interpolate (float_of_bits p00) (float_of_bits p01)
                              (float_of_bits p10) (float_of_bits p11) x y xb yb in
     if result = NaN then
       (let missingValueReason = max_i32 (max_i32 p00 p01) (max_i32 p10 p11) in
        obind (nodata_of missingValueReason) (\<lambda>nodata.
        obind (load expectedResults (int (expectedResultCursor L))) (\<lambda>expected.
          Returns (advance i x y (Finite 1)
            (if fp_ne nodata expected then count_mismatch it L else L)))))
     else
       obind (load expectedResults (int (expectedResultCursor L))) (\<lambda>expected.
         Returns (advance i x y result (compare_valid it result expected L))))"

definition TestNaN_computeAndCompare :: "host \<Rightarrow> TestCase \<Rightarrow> TestCase outcome" where
  "TestNaN_computeAndCompare = computeAndCompare TestNaN_point"

section \<open>The variant \<open>TestNodata\<close>\<close>

definition TestNodata_UNKNOWN :: fpval where "TestNodata_UNKNOWN = Finite 10000"
definition TestNodata_CLOUD :: fpval where "TestNodata_CLOUD = Finite 10001"
definition TestNodata_LAND :: fpval where "TestNodata_LAND = Finite 10002"
definition TestNodata_NO_PASS :: fpval where "TestNodata_NO_PASS = Finite 10003"

text \<open>The body of the inner loop. The largest of the four cells, compared as \<open>float\<close>, is
  tested against the threshold before anything is interpolated.\<close>

definition TestNodata_point ::
  "32 word list \<Rightarrow> fpval list \<Rightarrow> nat \<Rightarrow> nat \<Rightarrow> frame \<Rightarrow> frame outcome" where
  "TestNodata_point raster expectedResults it i L =
     obind (fetch raster (coordinates L) i) (\<lambda>(x, y, xb, yb, p00, p01, p10, p11).
     let v00 = float_of_bits p00; v01 = float_of_bits p01;
         v10 = float_of_bits p10; v11 = float_of_bits p11;
         missingValueReason = fp_max (fp_max v00 v01) (fp_max v10 v11) in
     if fp_ge missingValueReason (Finite (of_int MISSING_VALUE_THRESHOLD)) then
       obind (load expectedResults (int (expectedResultCursor L))) (\<lambda>expected.
         Returns (advance i x y (Finite 1)
           (if fp_ne missingValueReason expected then count_mismatch it L else L)))
     else
       (let result = interpolate v00 v01 v10 v11 x y xb yb in
        obind (load expectedResults (int (expectedResultCursor L))) (\<lambda>expected.
          Returns (advance i x y result (compare_valid it result expected L)))))"

definition TestNodata_computeAndCompare :: "host \<Rightarrow> TestCase \<Rightarrow> TestCase outcome" where
  "TestNodata_computeAndCompare = computeAndCompare TestNodata_point"

section \<open>The data model of the raster\<close>

text \<open>What the specification says a cell of the raster holds. A valid sample is a finite
  \<open>float\<close> in \<open>[-100, +100]\<close>. A missing sample of reason \<open>k\<close> (0 to 3) is the pattern
  \<open>FIRST_QUIET_NAN + k\<close> in a NaN raster, and a \<open>float\<close> of value
  \<open>MISSING_VALUE_THRESHOLD + k\<close> in a sentinel raster.\<close>

definition valid_sample :: "32 word \<Rightarrow> bool" where
  "valid_sample p =
     (case float_of_bits p of Finite v \<Rightarrow> - 100 \<le> v \<and> v \<le> 100 | _ \<Rightarrow> False)"

definition nan_marker :: "nat \<Rightarrow> 32 word" where
  "nan_marker k = FIRST_QUIET_NAN + of_nat k"

definition sentinel_marker :: "nat \<Rightarrow> 32 word \<Rightarrow> bool" where
  "sentinel_marker k p = (float_of_bits p = Finite (of_int MISSING_VALUE_THRESHOLD + of_nat k))"

definition nan_cell :: "32 word \<Rightarrow> bool" where
  "nan_cell p = (valid_sample p \<or> (\<exists>k<4. p = nan_marker k))"

definition sentinel_cell :: "32 word \<Rightarrow> bool" where
  "sentinel_cell p = (valid_sample p \<or> (\<exists>k<4. sentinel_marker k p))"

text \<open>A cell of a NaN raster and a cell of a sentinel raster that hold the same thing: the
  same valid sample, or a missing sample of the same reason.\<close>

definition same_cell :: "32 word \<Rightarrow> 32 word \<Rightarrow> bool" where
  "same_cell n s =
     ((valid_sample n \<and> s = n) \<or> (\<exists>k<4. n = nan_marker k \<and> sentinel_marker k s))"

text \<open>Coordinates inside the raster, with room for the right and lower neighbours.\<close>

definition in_raster :: "fpval \<Rightarrow> fpval \<Rightarrow> bool" where
  "in_raster x y =
     (case (x, y) of
        (Finite qx, Finite qy) \<Rightarrow>
          0 \<le> qx \<and> qx < of_int (WIDTH - 1) \<and> 0 \<le> qy \<and> qy < of_int (HEIGHT - 1)
      | _ \<Rightarrow> False)"

definition all_in_raster :: "fpval list \<Rightarrow> bool" where
  "all_in_raster coords =
     (length coords = 2 * NUM_INTERPOLATION_POINTS \<and>
      (\<forall>j<NUM_INTERPOLATION_POINTS. in_raster (coords ! (2 * j)) (coords ! (2 * j + 1))))"

text \<open>What two harnesses are compared on: the two arrays, when the call returns.\<close>

fun results_of :: "TestCase outcome \<Rightarrow> (fpval list \<times> int list) outcome" where
  "results_of (Returns t) = Returns (errorStatistics t, nodataMismatches t)"
| "results_of (Exits n) = Exits n"
| "results_of Throws_bad_alloc = Throws_bad_alloc"
| "results_of Undefined = Undefined"

section \<open>An example host\<close>

text \<open>A little-endian machine with a big-endian NaN raster whose cells are all missing for
  the reason \<open>CLOUD\<close>, a little-endian sentinel raster holding the same, and coordinates and
  expected results that are all zero.\<close>

definition example_host :: host where
  "example_host =
     \<lparr>files = (\<lambda>file.
        if file = ''../generated-data/nan/big-endian.raw''
        then Some (concat (replicate 480000 [0x7F, 0xC0, 0x00, 0x01]))
        else if file = ''../generated-data/nodata/little-endian.raw''
        then Some (concat (replicate 480000 [0x00, 0x44, 0x1C, 0x46]))
        else Some (concat (replicate 200000 [0, 0, 0, 0, 0, 0, 0, 0]))),
      native = little,
      allocates = (\<lambda>n. True)\<rparr>"

text \<open>The variables of \<open>computeAndCompare\<close> when the loops start on the coordinates of that
  host.\<close>

definition example_frame :: frame where
  "example_frame =
     \<lparr>statistics = replicate 10 (Finite 0), mismatches = replicate 10 0,
      coordinates = replicate 40000 (Finite 0), expectedResultCursor = 0, stats = Finite 0\<rparr>"

section \<open>Notions used in the proofs\<close>

text \<open>A finite value of magnitude at most \<open>B\<close>.\<close>

definition bounded :: "rat \<Rightarrow> fpval \<Rightarrow> bool" where
  "bounded B v = (case v of Finite r \<Rightarrow> \<bar>r\<bar> \<le> B | _ \<Rightarrow> False)"

text \<open>A frame that differs from another at most in \<open>stats\<close> and in the mismatch counts.\<close>

definition keeps :: "frame \<Rightarrow> frame \<Rightarrow> bool" where
  "keeps L L' = (coordinates L' = coordinates L \<and>
                 expectedResultCursor L' = expectedResultCursor L \<and>
                 statistics L' = statistics L \<and>
                 length (mismatches L') = length (mismatches L))"

text \<open>The effect of the body of the inner loop for point \<open>i\<close> on everything but \<open>stats\<close> and
  the mismatch counts: the two coordinates of the point are replaced by coordinates inside
  the raster, and the cursor moves by one.\<close>

definition stepped :: "nat \<Rightarrow> frame \<Rightarrow> frame \<Rightarrow> bool" where
  "stepped i L L' =
     (length (coordinates L') = length (coordinates L) \<and>
      in_raster (coordinates L' ! (2 * i)) (coordinates L' ! (2 * i + 1)) \<and>
      (\<forall>j. j \<noteq> 2 * i \<longrightarrow> j \<noteq> 2 * i + 1 \<longrightarrow> coordinates L' ! j = coordinates L ! j) \<and>
      expectedResultCursor L' = expectedResultCursor L + 1 \<and>
      statistics L' = statistics L \<and>
      length (mismatches L') = length (mismatches L))"

section \<open>Results\<close>

lemma success_loop_iff:
  "success_loop t i = (\<forall>j. i \<le> j \<and> j < 8 \<longrightarrow> nodataMismatches t ! j = 0)"
proof (induction t i rule: success_loop.induct)
  case (1 t i)
  show ?case
  proof (cases "i < NUM_VERIFIED_ITERATIONS")
    case False
    then show ?thesis
      by (subst success_loop.simps) (simp add: NUM_VERIFIED_ITERATIONS_def)
  next
    case True
    note inr = this
    show ?thesis
    proof (cases "nodataMismatches t ! i \<noteq> 0")
      case True
      note nz = this
      show ?thesis
      proof (cases "i < 8")
        case True
        with nz inr show ?thesis
          by (subst success_loop.simps) auto
      next
        case False
        with nz inr "1.IH"(1) show ?thesis
          by (subst success_loop.simps) auto
      qed
    next
      case False
      have step: "success_loop t i = success_loop t (i + 1)"
        using inr False by (subst success_loop.simps) simp
      have "(\<forall>j. i \<le> j \<and> j < 8 \<longrightarrow> nodataMismatches t ! j = 0) =
            (\<forall>j. i + 1 \<le> j \<and> j < 8 \<longrightarrow> nodataMismatches t ! j = 0)"
      proof (intro iffI allI impI)
        fix j assume "\<forall>j. i \<le> j \<and> j < 8 \<longrightarrow> nodataMismatches t ! j = 0" "i + 1 \<le> j \<and> j < 8"
        then show "nodataMismatches t ! j = 0" by simp
      next
        fix j assume a: "\<forall>j. i + 1 \<le> j \<and> j < 8 \<longrightarrow> nodataMismatches t ! j = 0" "i \<le> j \<and> j < 8"
        show "nodataMismatches t ! j = 0"
        proof (cases "j = i")
          case True
          with False show ?thesis by simp
        next
          case False
          with a show ?thesis by simp
        qed
      qed
      with step "1.IH"(2)[OF inr] False show ?thesis by simp
    qed
  qed
qed


lemma all_from_split:
  fixes i n :: nat
  assumes "i < n"
  shows "(\<forall>j. i \<le> j \<and> j < n \<longrightarrow> P j) = (P i \<and> (\<forall>j. i + 1 \<le> j \<and> j < n \<longrightarrow> P j))"
proof (intro iffI conjI allI impI)
  assume a: "\<forall>j. i \<le> j \<and> j < n \<longrightarrow> P j"
  from a assms show "P i" by simp
  fix j assume "i + 1 \<le> j \<and> j < n"
  with a show "P j" by simp
next
  fix j assume a: "P i \<and> (\<forall>j. i + 1 \<le> j \<and> j < n \<longrightarrow> P j)" and b: "i \<le> j \<and> j < n"
  show "P j"
  proof (cases "j = i")
    case True with a show ?thesis by simp
  next
    case False with a b show ?thesis by simp
  qed
qed

lemma resultEquals_loop_iff:
  "resultEquals_loop t other i =
     (\<forall>j. i \<le> j \<and> j < NUM_VERIFIED_ITERATIONS \<longrightarrow>
        \<not> fp_ne (errorStatistics t ! j) (errorStatistics other ! j) \<and>
        nodataMismatches t ! j = nodataMismatches other ! j)"
proof (induction t other i rule: resultEquals_loop.induct)
  case (1 t other i)
  show ?case
  proof (cases "i < NUM_VERIFIED_ITERATIONS")
    case False
    then show ?thesis by (subst resultEquals_loop.simps) auto
  next
    case True
    note inr = this
    show ?thesis
    proof (cases "fp_ne (errorStatistics t ! i) (errorStatistics other ! i) \<or>
            nodataMismatches t ! i \<noteq> nodataMismatches other ! i")
      case True
      with inr show ?thesis
        by (subst resultEquals_loop.simps) auto
    next
      case False
      note same = this
      have step: "resultEquals_loop t other i = resultEquals_loop t other (i + 1)"
        using inr same by (subst resultEquals_loop.simps) simp
      have ih: "resultEquals_loop t other (i + 1) =
        (\<forall>j. i + 1 \<le> j \<and> j < NUM_VERIFIED_ITERATIONS \<longrightarrow>
        \<not> fp_ne (errorStatistics t ! j) (errorStatistics other ! j) \<and>
        nodataMismatches t ! j = nodataMismatches other ! j)"
        using "1.IH"[OF inr] same by blast
      show ?thesis
        unfolding step ih
          all_from_split[OF inr, where P="\<lambda>j. \<not> fp_ne (errorStatistics t ! j) (errorStatistics other ! j) \<and>
            nodataMismatches t ! j = nodataMismatches other ! j"]
        using same by blast
    qed
  qed
qed

subsection \<open>The verdict of a harness\<close>

text \<open>
  Claim C5. \<open>success()\<close> returns true exactly when the mismatch count of every iteration
  index below 8 is zero. The counts at the indices 8 and 9 and the whole of
  \<open>errorStatistics\<close> have no effect: replacing them does not change the result.
\<close>

theorem success_iff_first_eight:
  "success t = (\<forall>i<8. nodataMismatches t ! i = 0) \<and>
   success (t\<lparr>errorStatistics := es,
              nodataMismatches := (nodataMismatches t)[8 := a, 9 := b]\<rparr>) = success t"
  unfolding success_def by (simp add: success_loop_iff)

theorem success_iff_first_eight_witness:
  "success \<lparr>useNaN = False, byteOrder = big, rasterFile = ''r'', coordinatesFile = ''c'',
     expectedResultsFile = ''e'',
     errorStatistics = [Finite 0, Finite 0, Finite 0, Finite 0, Finite 0,
                        Finite 0, Finite 0, Finite 0, Finite 1, Finite 2],
     nodataMismatches = [0, 0, 0, 0, 0, 0, 0, 0, 3, 5]\<rparr> \<and>
   \<not> success \<lparr>useNaN = False, byteOrder = big, rasterFile = ''r'', coordinatesFile = ''c'',
     expectedResultsFile = ''e'',
     errorStatistics = [Finite 0, Finite 0, Finite 0, Finite 0, Finite 0,
                        Finite 0, Finite 0, Finite 0, Finite 0, Finite 0],
     nodataMismatches = [0, 0, 0, 0, 0, 0, 0, 1, 0, 0]\<rparr>"
  using success_iff_first_eight [of "\<lparr>useNaN = False, byteOrder = big, rasterFile = ''r'',
     coordinatesFile = ''c'', expectedResultsFile = ''e'',
     errorStatistics = [Finite 0, Finite 0, Finite 0, Finite 0, Finite 0,
                        Finite 0, Finite 0, Finite 0, Finite 1, Finite 2],
     nodataMismatches = [0, 0, 0, 0, 0, 0, 0, 0, 3, 5]\<rparr>"]
    success_iff_first_eight [of "\<lparr>useNaN = False, byteOrder = big, rasterFile = ''r'',
     coordinatesFile = ''c'', expectedResultsFile = ''e'',
     errorStatistics = [Finite 0, Finite 0, Finite 0, Finite 0, Finite 0,
                        Finite 0, Finite 0, Finite 0, Finite 0, Finite 0],
     nodataMismatches = [0, 0, 0, 0, 0, 0, 0, 1, 0, 0]\<rparr>"]
  by (simp add: eval_nat_numeral All_less_Suc)

text \<open>
  Claim C6. \<open>resultEquals(other)\<close> returns true exactly when, at every iteration index
  below \<open>NUM_VERIFIED_ITERATIONS\<close>, the two error statistics are the same value and the two
  mismatch counts are the same. The comparison is the \<open>!=\<close> of \<open>double\<close>, without tolerance:
  the same value on both sides, and (as always for \<open>double\<close>) a NaN equal to nothing.
\<close>

theorem resultEquals_iff_all_equal:
  "resultEquals t other =
   (\<forall>i<NUM_VERIFIED_ITERATIONS.
      errorStatistics t ! i \<noteq> NaN \<and> errorStatistics t ! i = errorStatistics other ! i \<and>
      nodataMismatches t ! i = nodataMismatches other ! i)"
  unfolding resultEquals_def resultEquals_loop_iff fp_ne_def by auto

theorem resultEquals_iff_all_equal_witness:
  "resultEquals
     \<lparr>useNaN = False, byteOrder = big, rasterFile = ''r'', coordinatesFile = ''c'',
      expectedResultsFile = ''e'',
      errorStatistics = [Finite 0, Finite 0, Finite 0, Finite 0, Finite 0,
                         Finite 0, Finite 0, Finite 0, Finite 1, Finite 2],
      nodataMismatches = [0, 0, 0, 0, 0, 0, 0, 0, 3, 5]\<rparr>
     \<lparr>useNaN = True, byteOrder = little, rasterFile = ''s'', coordinatesFile = ''d'',
      expectedResultsFile = ''f'',
      errorStatistics = [Finite 0, Finite 0, Finite 0, Finite 0, Finite 0,
                         Finite 0, Finite 0, Finite 0, Finite 1, Finite 2],
      nodataMismatches = [0, 0, 0, 0, 0, 0, 0, 0, 3, 5]\<rparr>"
  using resultEquals_iff_all_equal [of
     "\<lparr>useNaN = False, byteOrder = big, rasterFile = ''r'', coordinatesFile = ''c'',
      expectedResultsFile = ''e'',
      errorStatistics = [Finite 0, Finite 0, Finite 0, Finite 0, Finite 0,
                         Finite 0, Finite 0, Finite 0, Finite 1, Finite 2],
      nodataMismatches = [0, 0, 0, 0, 0, 0, 0, 0, 3, 5]\<rparr>"
     "\<lparr>useNaN = True, byteOrder = little, rasterFile = ''s'', coordinatesFile = ''d'',
      expectedResultsFile = ''f'',
      errorStatistics = [Finite 0, Finite 0, Finite 0, Finite 0, Finite 0,
                         Finite 0, Finite 0, Finite 0, Finite 1, Finite 2],
      nodataMismatches = [0, 0, 0, 0, 0, 0, 0, 0, 3, 5]\<rparr>"]
  by (simp add: NUM_VERIFIED_ITERATIONS_def eval_nat_numeral All_less_Suc)


subsection \<open>Bit patterns of \<open>float\<close> read as signed integers\<close>

lemma sint32:
  "sint (p::32 word) = (if uint p < 2147483648 then uint p else uint p - 4294967296)"
proof -
  have b: "0 \<le> uint p" "uint p < 4294967296" using uint_lt2p[of p] by simp_all
  have s: "sint p = (uint p + 2147483648) mod 4294967296 - 2147483648"
    by (simp add: sint_uint signed_take_bit_eq_take_bit_shift take_bit_eq_mod)
  show ?thesis
  proof (cases "uint p < 2147483648")
    case True
    with b have "(uint p + 2147483648) mod 4294967296 = uint p + 2147483648"
      by (intro mod_pos_pos_trivial) simp_all
    with s True show ?thesis by simp
  next
    case False
    with b have "(uint p + 2147483648) mod 4294967296 = uint p + 2147483648 - 4294967296"
      by (subst mod_pos_geq) (simp_all add: mod_pos_pos_trivial)
    with s False show ?thesis by simp
  qed
qed

lemma exp_field:
  "unat (take_bit 8 (drop_bit 23 (p::32 word))) = (unat p div 2 ^ 23) mod 2 ^ 8"
  by (simp add: take_bit_eq_mod drop_bit_eq_div unat_div unat_mod)

lemma exponent_of_finite:
  "float_of_bits p = Finite v \<Longrightarrow> unat (take_bit 8 (drop_bit 23 p)) \<noteq> 255"
  by (auto simp: float_of_bits_def ieee_value_def split: if_splits)

lemma sint_FQN: "sint FIRST_QUIET_NAN = 2143289344"
  by (simp add: FIRST_QUIET_NAN_def)

text \<open>Every finite \<open>float\<close> is, as a signed integer, below the pattern of the infinity
  \<open>0x7F800000\<close>, and so below every quiet NaN used by the test.\<close>

lemma finite_below_nan:
  assumes "float_of_bits p = Finite v"
  shows "sint p < 2139095040"
proof (cases "uint p < 2147483648")
  case False
  then show ?thesis using uint_lt2p[of p] by (simp add: sint32)
next
  case True
  then have s: "sint p = uint p" by (simp add: sint32)
  have un: "uint p = int (unat p)" by (rule uint_nat)
  from True un have u: "unat p < 256 * 8388608" by linarith
  have e: "unat p div 8388608 mod 256 \<noteq> 255"
    using exponent_of_finite[OF assms] by (simp add: exp_field)
  from u have "unat p div 8388608 < 256" by (rule less_mult_imp_div_less)
  with e have "unat p div 8388608 < 255" by simp
  then have "unat p < 255 * 8388608" by (simp only: div_less_iff_less_mult)
  with s un show ?thesis by linarith
qed

lemma small_cases: "k < 4 \<Longrightarrow> k = 0 \<or> k = 1 \<or> k = 2 \<or> k = (3::nat)"
  by auto

lemma sint_nan_marker: "k < 4 \<Longrightarrow> sint (nan_marker k) = 2143289344 + int k"
  by (drule small_cases, elim disjE) (simp_all add: nan_marker_def FIRST_QUIET_NAN_def)

lemma nan_marker_is_nan: "k < 4 \<Longrightarrow> float_of_bits (nan_marker k) = NaN"
  by (drule small_cases, elim disjE)
     (simp_all add: nan_marker_def FIRST_QUIET_NAN_def float_of_bits_def ieee_value_def)

lemma valid_sample_finite:
  "valid_sample p \<Longrightarrow> \<exists>v. float_of_bits p = Finite v \<and> - 100 \<le> v \<and> v \<le> 100"
  by (auto simp: valid_sample_def split: fpval.splits)

lemma nan_reason_max:
  assumes cells: "\<forall>p \<in> {p00, p01, p10, p11}. nan_cell p"
    and k: "k < 4" "nan_marker k \<in> {p00, p01, p10, p11}"
    and top: "\<forall>j<4. nan_marker j \<in> {p00, p01, p10, p11} \<longrightarrow> j \<le> k"
  shows "max_i32 (max_i32 p00 p01) (max_i32 p10 p11) = nan_marker k"
proof -
  let ?m = "max_i32 (max_i32 p00 p01) (max_i32 p10 p11)"
  have inS: "?m \<in> {p00, p01, p10, p11}" by (simp add: max_i32_def)
  have "sint (nan_marker k) \<le> sint ?m" using k(2) by (auto simp: max_i32_def)
  then have ge: "2143289344 + int k \<le> sint ?m" using k(1) by (simp add: sint_nan_marker)
  from cells inS have "valid_sample ?m \<or> (\<exists>j<4. ?m = nan_marker j)"
    unfolding nan_cell_def by blast
  then show ?thesis
  proof
    assume "valid_sample ?m"
    then obtain v where "float_of_bits ?m = Finite v" using valid_sample_finite by blast
    then have "sint ?m < 2139095040" by (rule finite_below_nan)
    with ge show ?thesis by simp
  next
    assume "\<exists>j<4. ?m = nan_marker j"
    then obtain j where j: "j < 4" "?m = nan_marker j" by blast
    with ge have "k \<le> j" by (simp add: sint_nan_marker)
    moreover from top j inS have "j \<le> k" by metis
    ultimately show ?thesis using j by simp
  qed
qed

lemma nodata_of_marker:
  "k < 4 \<Longrightarrow>
   nodata_of (nan_marker k) = Returns (Finite (of_int MISSING_VALUE_THRESHOLD + of_nat k))"
  by (simp add: nodata_of_def sint_nan_marker sint_FQN int32_def MISSING_VALUE_THRESHOLD_def)

lemma fp_max_Finite: "fp_max (Finite a) (Finite b) = Finite (max a b)"
  by (simp add: fp_max_def max_def)

lemma all_less_4: "(\<forall>j<4. P j) = (P 0 \<and> P 1 \<and> P 2 \<and> P (3::nat))"
  by (auto simp: eval_nat_numeral All_less_Suc)

lemma ex_less_4: "(\<exists>j<4. P j) = (P 0 \<or> P 1 \<or> P 2 \<or> P (3::nat))"
  by (auto simp: eval_nat_numeral Ex_less_Suc)

lemma sentinel_cell_value:
  assumes "sentinel_cell p" "\<forall>j<4. sentinel_marker j p \<longrightarrow> j \<le> k"
  shows "\<exists>v. float_of_bits p = Finite v \<and> v \<le> of_int MISSING_VALUE_THRESHOLD + of_nat k"
proof -
  from assms(1) have "valid_sample p \<or> (\<exists>j<4. sentinel_marker j p)"
    by (simp add: sentinel_cell_def)
  then show ?thesis
  proof
    assume "valid_sample p"
    then obtain v where "float_of_bits p = Finite v" "v \<le> 100" using valid_sample_finite by blast
    then show ?thesis by (auto simp: MISSING_VALUE_THRESHOLD_def)
  next
    assume "\<exists>j<4. sentinel_marker j p"
    then obtain j where j: "j < 4" "sentinel_marker j p" by blast
    with assms(2) have "j \<le> k" by blast
    with j(2) show ?thesis by (simp add: sentinel_marker_def)
  qed
qed

lemma sentinel_reason_max:
  assumes cells: "\<forall>p \<in> {p00, p01, p10, p11}. sentinel_cell p"
    and k: "\<exists>p \<in> {p00, p01, p10, p11}. sentinel_marker k p"
    and top: "\<forall>j<4. (\<exists>p \<in> {p00, p01, p10, p11}. sentinel_marker j p) \<longrightarrow> j \<le> k"
  shows "fp_max (fp_max (float_of_bits p00) (float_of_bits p01))
                (fp_max (float_of_bits p10) (float_of_bits p11)) =
         Finite (of_int MISSING_VALUE_THRESHOLD + of_nat k)"
proof -
  let ?T = "of_int MISSING_VALUE_THRESHOLD + of_nat k :: rat"
  have bound: "\<exists>v. float_of_bits p = Finite v \<and> v \<le> ?T" if "p \<in> {p00, p01, p10, p11}" for p
  proof (rule sentinel_cell_value)
    from cells that show "sentinel_cell p" by blast
    from top that show "\<forall>j<4. sentinel_marker j p \<longrightarrow> j \<le> k" by blast
  qed
  obtain a where a: "float_of_bits p00 = Finite a" "a \<le> ?T" using bound[of p00] by auto
  obtain b where b: "float_of_bits p01 = Finite b" "b \<le> ?T" using bound[of p01] by auto
  obtain c where c: "float_of_bits p10 = Finite c" "c \<le> ?T" using bound[of p10] by auto
  obtain d where d: "float_of_bits p11 = Finite d" "d \<le> ?T" using bound[of p11] by auto
  from k a b c d have "a = ?T \<or> b = ?T \<or> c = ?T \<or> d = ?T"
    by (auto simp: sentinel_marker_def)
  with a b c d have "max (max a b) (max c d) = ?T" by (auto simp: max_def)
  with a b c d show ?thesis by (simp add: fp_max_Finite)
qed

subsection \<open>The guard of the raster reads\<close>

text \<open>
  Claim C2. The fatal branch is taken exactly when the base offset itself is negative or at
  least \<open>(HEIGHT - 1) * WIDTH + (WIDTH - 1)\<close>; the right and lower neighbours are not part
  of the test. At the coordinates \<open>(10, 599)\<close> the offset is 479210: the guard lets it pass,
  although \<open>offset + WIDTH\<close> is beyond the last cell of the raster, and the read of that cell
  is outside the buffer.
\<close>

theorem guard_passes_offset_with_neighbours_outside:
  "base_offset (fp_floor (Finite 10)) (fp_floor (Finite 599)) = Returns 479210 \<and>
   \<not> out_of_bounds 479210 \<and>
   (HEIGHT - 1) * WIDTH + (WIDTH - 1) < 479210 + WIDTH \<and>
   fetch (replicate (nat (WIDTH * HEIGHT)) p) [Finite 10, Finite 599] 0 = Undefined"
  by (simp add: base_offset_def out_of_bounds_def fetch_def locate_def corners_def load_def
      int32_def trunc_def WIDTH_def HEIGHT_def Let_def)

text \<open>What the guard does ensure: the base offset is a cell of the raster, and an offset
  whose whole neighbourhood is inside the raster is never rejected.\<close>

lemma guard_ensures_base_only:
  "\<not> out_of_bounds offset \<Longrightarrow> 0 \<le> offset \<and> offset < WIDTH * HEIGHT - 1"
  by (simp add: out_of_bounds_def WIDTH_def HEIGHT_def)

lemma neighbourhood_inside_passes_guard:
  "0 \<le> offset \<Longrightarrow> offset + WIDTH + 1 \<le> (HEIGHT - 1) * WIDTH + (WIDTH - 1) \<Longrightarrow>
   \<not> out_of_bounds offset"
  by (simp add: out_of_bounds_def WIDTH_def HEIGHT_def)

subsection \<open>The two codecs\<close>

text \<open>
  Claim C3. Take four cells of a NaN raster, each a valid sample (a finite \<open>float\<close> in
  \<open>[-100, +100]\<close>) or a pattern \<open>FIRST_QUIET_NAN + j\<close> with \<open>j\<close> from 0 to 3, and let \<open>k\<close> be the
  largest reason index among the cells that are such a NaN. Then the maximum of the four
  cells, compared as signed 32-bit integers, is the pattern \<open>FIRST_QUIET_NAN + k\<close>.
\<close>

theorem integer_max_recovers_dominant_reason:
  assumes "\<forall>p \<in> {p00, p01, p10, p11}. nan_cell p"
    and "k < 4"
    and "nan_marker k \<in> {p00, p01, p10, p11}"
    and "\<forall>j<4. nan_marker j \<in> {p00, p01, p10, p11} \<longrightarrow> j \<le> k"
  shows "max_i32 (max_i32 p00 p01) (max_i32 p10 p11) = FIRST_QUIET_NAN + of_nat k"
  using nan_reason_max [OF assms] by (simp add: nan_marker_def)

theorem integer_max_recovers_dominant_reason_witness:
  "max_i32 (max_i32 0x7FC00001 0x42C80000) (max_i32 0xC2C80000 0x7FC00002) =
   FIRST_QUIET_NAN + of_nat 2"
proof (rule integer_max_recovers_dominant_reason)
  show "\<forall>p \<in> {0x7FC00001, 0x42C80000, 0xC2C80000, 0x7FC00002 :: 32 word}. nan_cell p"
    by (simp add: nan_cell_def valid_sample_def float_of_bits_def ieee_value_def
        nan_marker_def FIRST_QUIET_NAN_def ex_less_4)
  show "(2::nat) < 4" by simp
  show "nan_marker 2 \<in> {0x7FC00001, 0x42C80000, 0xC2C80000, 0x7FC00002 :: 32 word}"
    by (simp add: nan_marker_def FIRST_QUIET_NAN_def)
  show "\<forall>j<4. nan_marker j \<in> {0x7FC00001, 0x42C80000, 0xC2C80000, 0x7FC00002 :: 32 word}
          \<longrightarrow> j \<le> 2"
    by (simp add: nan_marker_def FIRST_QUIET_NAN_def all_less_4)
qed

text \<open>
  Claim C4. For every reason index \<open>k\<close> from 0 to 3 both codecs arrive at the \<open>double\<close>
  \<open>MISSING_VALUE_THRESHOLD + k\<close>. In the NaN codec the constant of reason \<open>k\<close> is the pattern
  \<open>FIRST_QUIET_NAN + k\<close>, and \<open>(missingValueReason - FIRST_QUIET_NAN) +
  MISSING_VALUE_THRESHOLD\<close> maps it, and so the integer maximum of four cells whose dominant
  reason is \<open>k\<close>, to \<open>10000 + k\<close>. In the sentinel codec the constant of reason \<open>k\<close> is
  \<open>10000 + k\<close>, and so is the \<open>float\<close> maximum of four cells whose dominant reason is \<open>k\<close>.
\<close>

theorem both_codecs_give_threshold_plus_reason:
  assumes "k < 4"
    and "\<forall>p \<in> {n00, n01, n10, n11}. nan_cell p"
    and "nan_marker k \<in> {n00, n01, n10, n11}"
    and "\<forall>j<4. nan_marker j \<in> {n00, n01, n10, n11} \<longrightarrow> j \<le> k"
    and "\<forall>p \<in> {s00, s01, s10, s11}. sentinel_cell p"
    and "\<exists>p \<in> {s00, s01, s10, s11}. sentinel_marker k p"
    and "\<forall>j<4. (\<exists>p \<in> {s00, s01, s10, s11}. sentinel_marker j p) \<longrightarrow> j \<le> k"
  shows "[TestNaN_UNKNOWN, TestNaN_CLOUD, TestNaN_LAND, TestNaN_NO_PASS] ! k =
           FIRST_QUIET_NAN + of_nat k \<and>
         nodata_of (FIRST_QUIET_NAN + of_nat k) =
           Returns (Finite (of_int (MISSING_VALUE_THRESHOLD + int k))) \<and>
         nodata_of (max_i32 (max_i32 n00 n01) (max_i32 n10 n11)) =
           Returns (Finite (of_int (MISSING_VALUE_THRESHOLD + int k))) \<and>
         [TestNodata_UNKNOWN, TestNodata_CLOUD, TestNodata_LAND, TestNodata_NO_PASS] ! k =
           Finite (of_int (MISSING_VALUE_THRESHOLD + int k)) \<and>
         fp_max (fp_max (float_of_bits s00) (float_of_bits s01))
                (fp_max (float_of_bits s10) (float_of_bits s11)) =
           Finite (of_int (MISSING_VALUE_THRESHOLD + int k))"
proof (intro conjI)
  show "[TestNaN_UNKNOWN, TestNaN_CLOUD, TestNaN_LAND, TestNaN_NO_PASS] ! k =
        FIRST_QUIET_NAN + of_nat k"
    using assms(1)
    by (drule_tac small_cases, elim disjE)
       (simp_all add: TestNaN_UNKNOWN_def TestNaN_CLOUD_def TestNaN_LAND_def TestNaN_NO_PASS_def)
  show "nodata_of (FIRST_QUIET_NAN + of_nat k) =
        Returns (Finite (of_int (MISSING_VALUE_THRESHOLD + int k)))"
    using nodata_of_marker [OF assms(1)] by (simp add: nan_marker_def)
  show "nodata_of (max_i32 (max_i32 n00 n01) (max_i32 n10 n11)) =
        Returns (Finite (of_int (MISSING_VALUE_THRESHOLD + int k)))"
    using nan_reason_max [OF assms(2) assms(1) assms(3) assms(4)] nodata_of_marker [OF assms(1)]
    by simp
  show "[TestNodata_UNKNOWN, TestNodata_CLOUD, TestNodata_LAND, TestNodata_NO_PASS] ! k =
        Finite (of_int (MISSING_VALUE_THRESHOLD + int k))"
    using assms(1)
    by (drule_tac small_cases, elim disjE)
       (simp_all add: MISSING_VALUE_THRESHOLD_def TestNodata_UNKNOWN_def TestNodata_CLOUD_def
          TestNodata_LAND_def TestNodata_NO_PASS_def)
  show "fp_max (fp_max (float_of_bits s00) (float_of_bits s01))
               (fp_max (float_of_bits s10) (float_of_bits s11)) =
        Finite (of_int (MISSING_VALUE_THRESHOLD + int k))"
    using sentinel_reason_max [OF assms(5) assms(6) assms(7)] by simp
qed

theorem both_codecs_give_threshold_plus_reason_witness:
  "[TestNaN_UNKNOWN, TestNaN_CLOUD, TestNaN_LAND, TestNaN_NO_PASS] ! 2 =
     FIRST_QUIET_NAN + of_nat 2 \<and>
   nodata_of (FIRST_QUIET_NAN + of_nat 2) =
     Returns (Finite (of_int (MISSING_VALUE_THRESHOLD + int 2))) \<and>
   nodata_of (max_i32 (max_i32 0x7FC00001 0x42C80000) (max_i32 0xC2C80000 0x7FC00002)) =
     Returns (Finite (of_int (MISSING_VALUE_THRESHOLD + int 2))) \<and>
   [TestNodata_UNKNOWN, TestNodata_CLOUD, TestNodata_LAND, TestNodata_NO_PASS] ! 2 =
     Finite (of_int (MISSING_VALUE_THRESHOLD + int 2)) \<and>
   fp_max (fp_max (float_of_bits 0x461C4400) (float_of_bits 0x42C80000))
          (fp_max (float_of_bits 0xC2C80000) (float_of_bits 0x461C4800)) =
     Finite (of_int (MISSING_VALUE_THRESHOLD + int 2))"
proof -
  have n: "\<forall>p \<in> {0x7FC00001, 0x42C80000, 0xC2C80000, 0x7FC00002 :: 32 word}. nan_cell p"
    by (simp add: nan_cell_def valid_sample_def float_of_bits_def ieee_value_def
        nan_marker_def FIRST_QUIET_NAN_def ex_less_4)
  have k: "(2::nat) < 4" by simp
  have m: "nan_marker 2 \<in> {0x7FC00001, 0x42C80000, 0xC2C80000, 0x7FC00002 :: 32 word}"
    by (simp add: nan_marker_def FIRST_QUIET_NAN_def)
  have t: "\<forall>j<4. nan_marker j \<in> {0x7FC00001, 0x42C80000, 0xC2C80000, 0x7FC00002 :: 32 word}
          \<longrightarrow> j \<le> 2"
    by (simp add: nan_marker_def FIRST_QUIET_NAN_def all_less_4)
  have s: "\<forall>p \<in> {0x461C4400, 0x42C80000, 0xC2C80000, 0x461C4800 :: 32 word}. sentinel_cell p"
    by (simp add: sentinel_cell_def sentinel_marker_def valid_sample_def float_of_bits_def
        ieee_value_def MISSING_VALUE_THRESHOLD_def ex_less_4)
  have sm: "\<exists>p \<in> {0x461C4400, 0x42C80000, 0xC2C80000, 0x461C4800 :: 32 word}.
              sentinel_marker 2 p"
    by (simp add: sentinel_marker_def float_of_bits_def ieee_value_def
        MISSING_VALUE_THRESHOLD_def)
  have st: "\<forall>j<4. (\<exists>p \<in> {0x461C4400, 0x42C80000, 0xC2C80000, 0x461C4800 :: 32 word}.
              sentinel_marker j p) \<longrightarrow> j \<le> 2"
    by (simp add: sentinel_marker_def float_of_bits_def ieee_value_def
        MISSING_VALUE_THRESHOLD_def all_less_4)
  show ?thesis
    by (rule both_codecs_give_threshold_plus_reason [OF k n m t s sm st])
qed

subsection \<open>Loading\<close>

text \<open>
  Claim C8. \<open>readAllBytes\<close> returns \<open>NULL\<close> when the file cannot be opened and when it holds
  fewer than \<open>numBytes\<close> bytes. When the allocation fails it does not return at all: the
  \<open>new\<close> expression throws, and the test \<open>if (bytes)\<close> after it is never false. Here the
  file is there and long enough, and the allocation fails.
\<close>

theorem readAllBytes_throws_when_allocation_fails:
  "readAllBytes \<lparr>files = (\<lambda>file. Some [1, 2, 3, 4]), native = little,
                  allocates = (\<lambda>n. False)\<rparr> ''../generated-data/nan/coordinates.raw'' 4 =
   Throws_bad_alloc"
  by (simp add: readAllBytes_def)

text \<open>With the allocation left aside, the rest of the contract holds: \<open>NULL\<close> exactly for a
  file that is absent or too short, and otherwise a buffer of exactly \<open>numBytes\<close> bytes.\<close>

lemma readAllBytes_NULL_iff:
  "allocates H numBytes \<Longrightarrow>
   (readAllBytes H file numBytes = Returns None) =
   (files H file = None \<or> (\<exists>content. files H file = Some content \<and> length content < numBytes))"
  by (auto simp: readAllBytes_def split: option.splits)

lemma readAllBytes_buffer:
  "readAllBytes H file numBytes = Returns (Some bytes) \<Longrightarrow>
   length bytes = numBytes \<and>
   (\<exists>content. files H file = Some content \<and> bytes = take numBytes content)"
  by (auto simp: readAllBytes_def split: option.splits if_splits)

text \<open>
  Claim C10. When the raster, or after it the coordinates, or after them the expected
  results are loaded as \<open>NULL\<close>, \<open>computeAndCompare\<close> of either variant returns with the object
  unchanged. On a freshly constructed object both arrays are then still all zero, and
  \<open>success()\<close> is true although nothing was verified.
\<close>

theorem nothing_loaded_still_success:
  assumes "loadRaster H (TestCase_new testNaN order) = Returns None \<or>
           (\<exists>raster. loadRaster H (TestCase_new testNaN order) = Returns (Some raster) \<and>
              (loadCoordinates H (TestCase_new testNaN order) = Returns None \<or>
               (\<exists>coords. loadCoordinates H (TestCase_new testNaN order) = Returns (Some coords) \<and>
                  loadExpectedResults H (TestCase_new testNaN order) = Returns None)))"
  shows "TestNaN_computeAndCompare H (TestCase_new testNaN order) =
           Returns (TestCase_new testNaN order) \<and>
         TestNodata_computeAndCompare H (TestCase_new testNaN order) =
           Returns (TestCase_new testNaN order) \<and>
         errorStatistics (TestCase_new testNaN order) =
           replicate NUM_VERIFIED_ITERATIONS (Finite 0) \<and>
         nodataMismatches (TestCase_new testNaN order) = replicate NUM_VERIFIED_ITERATIONS 0 \<and>
         success (TestCase_new testNaN order)"
proof (intro conjI)
  show "TestNaN_computeAndCompare H (TestCase_new testNaN order) =
        Returns (TestCase_new testNaN order)"
    using assms by (auto simp: TestNaN_computeAndCompare_def computeAndCompare_def)
  show "TestNodata_computeAndCompare H (TestCase_new testNaN order) =
        Returns (TestCase_new testNaN order)"
    using assms by (auto simp: TestNodata_computeAndCompare_def computeAndCompare_def)
  show "errorStatistics (TestCase_new testNaN order) =
        replicate NUM_VERIFIED_ITERATIONS (Finite 0)"
    by (simp add: TestCase_new_def)
  show "nodataMismatches (TestCase_new testNaN order) = replicate NUM_VERIFIED_ITERATIONS 0"
    by (simp add: TestCase_new_def)
  show "success (TestCase_new testNaN order)"
    unfolding success_def success_loop_iff
    by (simp add: TestCase_new_def NUM_VERIFIED_ITERATIONS_def)
qed

theorem nothing_loaded_still_success_witness:
  "TestNaN_computeAndCompare \<lparr>files = (\<lambda>file. None), native = little, allocates = (\<lambda>n. True)\<rparr>
     (TestCase_new True big) = Returns (TestCase_new True big) \<and>
   success (TestCase_new True big)"
proof -
  have "loadRaster \<lparr>files = (\<lambda>file. None), native = little, allocates = (\<lambda>n. True)\<rparr>
          (TestCase_new True big) = Returns None"
    by (simp add: loadRaster_def readAllBytes_def)
  then show ?thesis
    using nothing_loaded_still_success
      [of "\<lparr>files = (\<lambda>file. None), native = little, allocates = (\<lambda>n. True)\<rparr>" True big]
    by blast
qed


subsection \<open>Rounding and the interpolation\<close>

lemma round_half_even_close: "\<bar>of_int (round_half_even x) - x\<bar> \<le> 1 / 2"
proof -
  have "of_int \<lfloor>x\<rfloor> \<le> x" "x < of_int \<lfloor>x\<rfloor> + 1" by linarith+
  then show ?thesis
    by (auto simp: round_half_even_def Let_def)
qed

lemma ilog2_lower:
  assumes "0 < q"
  shows "2 powi (ilog2 q) \<le> q"
proof (cases "1 \<le> q")
  case True
  then have pos: "0 < \<lfloor>q\<rfloor>" by simp
  from bitlen_bounds[OF pos] have b: "2 ^ nat (bitlen \<lfloor>q\<rfloor> - 1) \<le> \<lfloor>q\<rfloor>" by simp
  have ge1: "1 \<le> bitlen \<lfloor>q\<rfloor>" using pos by (simp add: bitlen_alt_def)
  from b have "(of_int (2 ^ nat (bitlen \<lfloor>q\<rfloor> - 1)) :: rat) \<le> of_int \<lfloor>q\<rfloor>"
    by (simp only: of_int_le_iff)
  also have "\<dots> \<le> q" by simp
  finally have "(2::rat) ^ nat (bitlen \<lfloor>q\<rfloor> - 1) \<le> q" by simp
  with True ge1 show ?thesis by (simp add: ilog2_def power_int_def)
next
  case False
  with assms have q1: "q < 1" by simp
  define m where "m = \<lceil>1 / q\<rceil> - 1"
  have "1 < 1 / q" using assms q1 by simp
  then have "1 < \<lceil>1 / q\<rceil>" by (simp add: less_ceiling_iff)
  then have pos: "0 < m" by (simp add: m_def)
  from bitlen_bounds[OF pos] have "m < 2 ^ nat (bitlen m)" by simp
  then have "\<lceil>1 / q\<rceil> \<le> 2 ^ nat (bitlen m)" by (simp add: m_def)
  then have "1 / q \<le> of_int (2 ^ nat (bitlen m))" by (simp only: ceiling_le_iff)
  then have "1 / q \<le> 2 ^ nat (bitlen m)" by simp
  then have "1 \<le> 2 ^ nat (bitlen m) * q" using assms by (simp add: pos_divide_le_eq)
  then have le: "1 / 2 ^ nat (bitlen m) \<le> q" by (simp add: pos_divide_le_eq mult.commute)
  have "2 powi (bitlen m) = (2::rat) ^ nat (bitlen m)"
    using bitlen_nonneg[of m] by (simp add: power_int_def)
  then have "2 powi (- bitlen m) = 1 / (2::rat) ^ nat (bitlen m)"
    by (simp add: power_int_minus inverse_eq_divide)
  with le have "2 powi (- bitlen m) \<le> q" by simp
  with False show ?thesis by (simp add: ilog2_def m_def)
qed

lemma round_double_bound:
  assumes "\<bar>q\<bar> \<le> 2 ^ 1000"
  shows "\<exists>r. round_double q = Finite r \<and> \<bar>r\<bar> \<le> 2 * \<bar>q\<bar> + 1"
proof (cases "q = 0")
  case True
  then show ?thesis by (simp add: round_double_def)
next
  case False
  define e where "e = max (ilog2 \<bar>q\<bar>) (- 1022)"
  define u :: rat where "u = 2 powi (e - 52)"
  define r where "r = of_int (round_half_even (q / u)) * u"
  have upos: "0 < u" by (simp add: u_def)
  have u_le: "u \<le> \<bar>q\<bar> + 1"
  proof (cases "- 1022 \<le> ilog2 \<bar>q\<bar>")
    case True
    then have "e = ilog2 \<bar>q\<bar>" by (simp add: e_def)
    then have "u \<le> 2 powi (ilog2 \<bar>q\<bar>)"
      unfolding u_def by (intro power_int_increasing) simp_all
    also have "\<dots> \<le> \<bar>q\<bar>" using False by (intro ilog2_lower) simp
    finally show ?thesis by simp
  next
    case False
    then have "e = - 1022" by (simp add: e_def)
    then have "u = 2 powi (- 1074)" by (simp add: u_def)
    also have "\<dots> \<le> 2 powi 0" by (intro power_int_increasing) simp_all
    finally show ?thesis by simp
  qed
  have "\<bar>of_int (round_half_even (q / u)) - q / u\<bar> \<le> 1 / 2"
    by (rule round_half_even_close)
  then have "\<bar>of_int (round_half_even (q / u)) - q / u\<bar> * u \<le> 1 / 2 * u"
    using upos by (intro mult_right_mono) simp_all
  moreover have "\<bar>of_int (round_half_even (q / u)) - q / u\<bar> * u = \<bar>r - q\<bar>"
  proof -
    have "(of_int (round_half_even (q / u)) - q / u) * u = r - q"
      using upos by (simp add: r_def left_diff_distrib)
    then have "\<bar>r - q\<bar> = \<bar>of_int (round_half_even (q / u)) - q / u\<bar> * \<bar>u\<bar>"
      by (metis abs_mult)
    with upos show ?thesis by simp
  qed
  ultimately have close: "\<bar>r - q\<bar> \<le> u / 2" by simp
  then have rb: "\<bar>r\<bar> \<le> 2 * \<bar>q\<bar> + 1" using u_le by linarith
  also have "\<dots> \<le> 2 * 2 ^ 1000 + 1" using assms by simp
  also have "\<dots> < (2::rat) ^ 1024" by simp
  finally have "\<not> 2 ^ 1024 \<le> \<bar>r\<bar>" by simp
  with False rb show ?thesis
    by (simp add: round_double_def Let_def e_def[symmetric] u_def[symmetric] r_def[symmetric])
qed

lemma boundedE: "bounded B v \<Longrightarrow> (\<And>r. v = Finite r \<Longrightarrow> \<bar>r\<bar> \<le> B \<Longrightarrow> P) \<Longrightarrow> P"
  by (auto simp: bounded_def split: fpval.splits)

lemma bounded_Finite [simp]: "bounded B (Finite r) = (\<bar>r\<bar> \<le> B)"
  by (simp add: bounded_def)

lemma bounded_mono: "bounded A v \<Longrightarrow> A \<le> B \<Longrightarrow> bounded B v"
  by (auto simp: bounded_def split: fpval.splits)

lemma bounded_round:
  assumes "\<bar>q\<bar> \<le> B" "B \<le> 2 ^ 1000"
  shows "bounded (2 * B + 1) (round_double q)"
proof -
  from assms have "\<bar>q\<bar> \<le> 2 ^ 1000" by simp
  from round_double_bound[OF this] obtain r where "round_double q = Finite r" "\<bar>r\<bar> \<le> 2 * \<bar>q\<bar> + 1"
    by blast
  with assms(1) show ?thesis by simp
qed

lemma bounded_sub:
  assumes "bounded A a" "bounded B b" "A + B \<le> 2 ^ 1000"
  shows "bounded (2 * (A + B) + 1) (fp_sub a b)"
proof -
  from assms(1) obtain r where a: "a = Finite r" "\<bar>r\<bar> \<le> A" by (rule boundedE)
  from assms(2) obtain s where b: "b = Finite s" "\<bar>s\<bar> \<le> B" by (rule boundedE)
  have "\<bar>r - s\<bar> \<le> A + B" using a b by linarith
  from bounded_round[OF this assms(3)] show ?thesis using a b by (simp add: fp_sub_def)
qed

lemma bounded_add:
  assumes "bounded A a" "bounded B b" "A + B \<le> 2 ^ 1000"
  shows "bounded (2 * (A + B) + 1) (fp_add a b)"
proof -
  from assms(1) obtain r where a: "a = Finite r" "\<bar>r\<bar> \<le> A" by (rule boundedE)
  from assms(2) obtain s where b: "b = Finite s" "\<bar>s\<bar> \<le> B" by (rule boundedE)
  have "\<bar>r + s\<bar> \<le> A + B" using a b by linarith
  from bounded_round[OF this assms(3)] show ?thesis using a b by (simp add: fp_add_def)
qed

lemma bounded_fma:
  assumes "bounded A a" "bounded B b" "bounded C c" "A * B + C \<le> 2 ^ 1000"
  shows "bounded (2 * (A * B + C) + 1) (fp_fma a b c)"
proof -
  from assms(1) obtain r where a: "a = Finite r" "\<bar>r\<bar> \<le> A" by (rule boundedE)
  from assms(2) obtain s where b: "b = Finite s" "\<bar>s\<bar> \<le> B" by (rule boundedE)
  from assms(3) obtain t where c: "c = Finite t" "\<bar>t\<bar> \<le> C" by (rule boundedE)
  have "\<bar>r * s\<bar> \<le> A * B" unfolding abs_mult using a b by (intro mult_mono) simp_all
  then have "\<bar>r * s + t\<bar> \<le> A * B + C" using c by linarith
  from bounded_round[OF this assms(4)] show ?thesis using a b c by (simp add: fp_fma_def)
qed

lemma bounded_frac: "bounded 3 (fp_sub (Finite q) (fp_floor (Finite q)))"
proof -
  have "\<bar>q - of_int \<lfloor>q\<rfloor>\<bar> \<le> 1" by linarith
  from bounded_round[OF this] show ?thesis by (simp add: fp_sub_def)
qed

lemma interpolate_bounded:
  assumes "bounded 100 v00" "bounded 100 v01" "bounded 100 v10" "bounded 100 v11"
  shows "bounded 67789 (interpolate v00 v01 v10 v11 (Finite qx) (Finite qy)
                           (fp_floor (Finite qx)) (fp_floor (Finite qy)))"
proof -
  let ?xf = "fp_sub (Finite qx) (fp_floor (Finite qx))"
  let ?yf = "fp_sub (Finite qy) (fp_floor (Finite qy))"
  have xf: "bounded 3 ?xf" and yf: "bounded 3 ?yf" by (rule bounded_frac)+
  have d0: "bounded 401 (fp_sub v01 v00)"
    using bounded_sub[OF assms(2) assms(1)] by simp
  have d1: "bounded 401 (fp_sub v11 v10)"
    using bounded_sub[OF assms(4) assms(3)] by simp
  have v0: "bounded 2607 (fp_fma (fp_sub v01 v00) ?xf v00)"
    using bounded_fma[OF d0 xf assms(1)] by simp
  have v1: "bounded 2607 (fp_fma (fp_sub v11 v10) ?xf v10)"
    using bounded_fma[OF d1 xf assms(3)] by simp
  have d: "bounded 10429 (fp_sub (fp_fma (fp_sub v11 v10) ?xf v10) (fp_fma (fp_sub v01 v00) ?xf v00))"
    using bounded_sub[OF v1 v0] by simp
  have "bounded 67789 (fp_fma (fp_sub (fp_fma (fp_sub v11 v10) ?xf v10) (fp_fma (fp_sub v01 v00) ?xf v00)) ?yf
           (fp_fma (fp_sub v01 v00) ?xf v00))"
    using bounded_fma[OF d yf v0] by simp
  then show ?thesis by (simp add: interpolate_def Let_def)
qed

lemma fp_sub_NaN [simp]: "fp_sub NaN b = NaN" "fp_sub a NaN = NaN"
  by (cases a; simp add: fp_sub_def)+

lemma ex_add_NaN_right [simp]: "ex_add a NaN = NaN"
  by (cases a) simp_all

lemma ex_mul_NaN_right [simp]: "ex_mul a NaN = NaN"
  by (cases a) simp_all

lemma fp_fma_NaN [simp]: "fp_fma NaN b c = NaN" "fp_fma a NaN c = NaN" "fp_fma a b NaN = NaN"
  by (simp_all add: fp_fma_def)

lemma interpolate_NaN:
  assumes "v00 = NaN \<or> v01 = NaN \<or> v10 = NaN \<or> v11 = NaN"
  shows "interpolate v00 v01 v10 v11 x y xb yb = NaN"
  using assms by (elim disjE) (simp_all add: interpolate_def Let_def)

subsection \<open>Reading the coordinates and the cells\<close>

lemma obind_Returns_iff:
  "(obind m f = Returns v) = (\<exists>a. m = Returns a \<and> f a = Returns v)"
  by (cases m) simp_all

lemma load_Returns_iff:
  "(load p i = Returns v) = (0 \<le> i \<and> i < int (length p) \<and> v = p ! nat i)"
  by (auto simp: load_def)

lemma to_int_Returns_iff:
  "(to_int v = Returns n) = (\<exists>q. v = Finite q \<and> n = trunc q \<and> - (2 ^ 31) \<le> n \<and> n < 2 ^ 31)"
  by (cases v) (auto simp: int32_def)

lemma int32_Returns_iff: "(int32 n = Returns m) = (m = n \<and> - (2 ^ 31) \<le> n \<and> n < 2 ^ 31)"
  by (auto simp: int32_def)

lemma trunc_of_int [simp]: "trunc (of_int n) = n"
  by (simp add: trunc_def)

lemma index_bits: "push_bit 1 (i::nat) = 2 * i" "push_bit 1 i OR 1 = 2 * i + 1"
  by (simp_all add: push_bit_eq_mult or_Suc_0_eq mult.commute)

lemma fp_floor_Finite_iff: "(fp_floor v = Finite n) = (\<exists>q. v = Finite q \<and> n = of_int \<lfloor>q\<rfloor>)"
  by (cases v) auto

lemma base_offset_Returns:
  assumes "base_offset (fp_floor x) (fp_floor y) = Returns offset"
  shows "\<exists>qx qy. x = Finite qx \<and> y = Finite qy \<and>
           - (2 ^ 31) \<le> \<lfloor>qx\<rfloor> \<and> \<lfloor>qx\<rfloor> < 2 ^ 31 \<and>
           offset = WIDTH * \<lfloor>qy\<rfloor> + \<lfloor>qx\<rfloor> \<and> \<not> out_of_bounds offset"
proof -
  from assms obtain yi xi row off where
    yi: "to_int (fp_floor y) = Returns yi" and xi: "to_int (fp_floor x) = Returns xi" and
    row: "int32 (WIDTH * yi) = Returns row" and off: "int32 (row + xi) = Returns off" and
    fin: "(if out_of_bounds off then Exits 1 else Returns off) = Returns offset"
    unfolding base_offset_def obind_Returns_iff by blast
  from yi obtain qy where qy: "y = Finite qy" "yi = \<lfloor>qy\<rfloor>"
    by (auto simp: to_int_Returns_iff fp_floor_Finite_iff)
  from xi obtain qx where qx: "x = Finite qx" "xi = \<lfloor>qx\<rfloor>" "- (2 ^ 31) \<le> xi" "xi < 2 ^ 31"
    by (auto simp: to_int_Returns_iff fp_floor_Finite_iff)
  from row have "row = WIDTH * yi" by (simp add: int32_Returns_iff)
  moreover from off have "off = row + xi" by (simp add: int32_Returns_iff)
  moreover from fin have "offset = off" "\<not> out_of_bounds off" by (auto split: if_splits)
  ultimately show ?thesis using qx qy by auto
qed

lemma two_or_one: "2 * (i::nat) OR 1 = 2 * i + 1"
  by (simp add: or_Suc_0_eq)

lemma locate_eq:
  "locate coords i =
     obind (load coords (int (2 * i))) (\<lambda>x.
     obind (load coords (int (2 * i + 1))) (\<lambda>y.
     obind (base_offset (fp_floor x) (fp_floor y)) (\<lambda>offset.
       Returns (x, y, fp_floor x, fp_floor y, offset))))"
  by (simp only: locate_def Let_def index_bits(1) two_or_one)

lemma load_nat: "(load p (int n) = Returns v) = (n < length p \<and> v = p ! n)"
  unfolding load_Returns_iff by (simp only: nat_int of_nat_0_le_iff of_nat_less_iff simp_thms)

lemma locate_Returns:
  assumes "locate coords i = Returns (x, y, xb, yb, offset)"
  shows "\<exists>qx qy. x = Finite qx \<and> y = Finite qy \<and> xb = fp_floor x \<and> yb = fp_floor y \<and>
           2 * i + 1 < length coords \<and> coords ! (2 * i) = x \<and> coords ! (2 * i + 1) = y \<and>
           - (2 ^ 31) \<le> \<lfloor>qx\<rfloor> \<and> \<lfloor>qx\<rfloor> < 2 ^ 31 \<and>
           offset = WIDTH * \<lfloor>qy\<rfloor> + \<lfloor>qx\<rfloor> \<and> \<not> out_of_bounds offset"
proof -
  from assms obtain x' y' off where
    x: "load coords (int (2 * i)) = Returns x'" and y: "load coords (int (2 * i + 1)) = Returns y'" and
    b: "base_offset (fp_floor x') (fp_floor y') = Returns off" and
    r: "(x', y', fp_floor x', fp_floor y', off) = (x, y, xb, yb, offset)"
    unfolding locate_eq obind_Returns_iff by blast
  from x have "coords ! (2 * i) = x'" by (simp only: load_nat)
  moreover from y have "2 * i + 1 < length coords" "coords ! (2 * i + 1) = y'"
    by (simp_all only: load_nat)
  ultimately show ?thesis using base_offset_Returns[OF b] r by auto
qed

lemma corners_eq:
  "corners raster offset =
     (if 0 \<le> offset \<and> offset + WIDTH + 1 < int (length raster)
      then Returns (raster ! nat offset, raster ! nat (offset + 1),
                    raster ! nat (offset + WIDTH), raster ! nat (offset + WIDTH + 1))
      else Undefined)"
  by (simp add: corners_def load_def WIDTH_def)

lemma base_offset_bounded:
  assumes "base_offset (fp_floor x) (fp_floor y) = Returns offset"
  shows "bounded (2 ^ 31) x \<and> bounded (2 ^ 31) y"
proof -
  from assms obtain yi xi where
    yi: "to_int (fp_floor y) = Returns yi" and xi: "to_int (fp_floor x) = Returns xi"
    unfolding base_offset_def obind_Returns_iff by blast
  from yi obtain qy where qy: "y = Finite qy" "- (2 ^ 31) \<le> \<lfloor>qy\<rfloor>" "\<lfloor>qy\<rfloor> < 2 ^ 31"
    by (auto simp: to_int_Returns_iff fp_floor_Finite_iff)
  from xi obtain qx where qx: "x = Finite qx" "- (2 ^ 31) \<le> \<lfloor>qx\<rfloor>" "\<lfloor>qx\<rfloor> < 2 ^ 31"
    by (auto simp: to_int_Returns_iff fp_floor_Finite_iff)
  have "\<bar>q\<bar> \<le> 2 ^ 31" if "- (2 ^ 31) \<le> \<lfloor>q\<rfloor>" "\<lfloor>q\<rfloor> < 2 ^ 31" for q :: rat
  proof -
    from that(1) have "- (2 ^ 31) \<le> q" by (simp add: le_floor_iff)
    moreover from that(2) have "q < 2 ^ 31" by (simp add: floor_less_iff)
    ultimately show ?thesis by simp
  qed
  with qx qy show ?thesis by simp
qed

lemma locate_bounded:
  assumes "locate coords i = Returns (x, y, xb, yb, offset)"
  shows "bounded (2 ^ 31) x \<and> bounded (2 ^ 31) y"
proof -
  from assms obtain x' y' off where
    b: "base_offset (fp_floor x') (fp_floor y') = Returns off" and
    r: "(x', y', fp_floor x', fp_floor y', off) = (x, y, xb, yb, offset)"
    unfolding locate_eq obind_Returns_iff by blast
  with base_offset_bounded[OF b] show ?thesis by simp
qed

lemma fmod_range:
  assumes "0 \<le> a" "0 < b"
  shows "\<exists>r. fp_fmod (Finite a) (Finite b) = Finite r \<and> 0 \<le> r \<and> r < b"
proof -
  from assms have nn: "0 \<le> a / b" by simp
  then have t: "trunc (a / b) = \<lfloor>a / b\<rfloor>" by (simp add: trunc_def)
  have lo: "of_int \<lfloor>a / b\<rfloor> \<le> a / b" and hi: "a / b < of_int \<lfloor>a / b\<rfloor> + 1" by linarith+
  from lo have "of_int \<lfloor>a / b\<rfloor> * b \<le> a"
    using assms(2) by (simp only: pos_le_divide_eq)
  moreover from hi have "a < (of_int \<lfloor>a / b\<rfloor> + 1) * b"
    using assms(2) by (simp only: pos_divide_less_eq)
  ultimately have "0 \<le> a - of_int \<lfloor>a / b\<rfloor> * b" "a - of_int \<lfloor>a / b\<rfloor> * b < b"
    by (simp_all add: algebra_simps)
  with assms(2) t show ?thesis by simp
qed

lemma feedback_range:
  assumes "bounded (2 ^ 31) x" "bounded 67789 r" "0 < b"
  shows "\<exists>q. fp_fmod (fp_abs (fp_add x r)) (Finite b) = Finite q \<and> 0 \<le> q \<and> q < b"
proof -
  have "bounded (2 * (2 ^ 31 + 67789) + 1) (fp_add x r)"
    using assms(1,2) by (rule bounded_add) simp
  then obtain s where "fp_add x r = Finite s" by (rule boundedE)
  then have "fp_abs (fp_add x r) = Finite \<bar>s\<bar>" by simp
  with fmod_range[of "\<bar>s\<bar>" b] assms(3) show ?thesis by simp
qed

lemma bounded_one: "bounded 67789 (Finite 1)"
  by simp

subsection \<open>The loop body on cells of the data model\<close>

lemma valid_sample_bounded: "valid_sample p \<Longrightarrow> bounded 100 (float_of_bits p)"
  by (auto simp: valid_sample_def split: fpval.splits)

lemma bounded_not_NaN: "bounded B v \<Longrightarrow> v \<noteq> NaN"
  by (auto simp: bounded_def)

lemma interpolate_valid:
  assumes loc: "locate coords i = Returns (x, y, xb, yb, offset)"
    and v: "valid_sample p00" "valid_sample p01" "valid_sample p10" "valid_sample p11"
  shows "bounded 67789 (interpolate (float_of_bits p00) (float_of_bits p01)
                          (float_of_bits p10) (float_of_bits p11) x y xb yb)"
proof -
  from locate_Returns[OF loc] obtain qx qy where
    "x = Finite qx" "y = Finite qy" "xb = fp_floor x" "yb = fp_floor y" by blast
  then show ?thesis
    using interpolate_bounded[OF v[THEN valid_sample_bounded], of qx qy] by simp
qed

lemma nan_point_valid:
  assumes loc: "locate (coordinates L) i = Returns (x, y, xb, yb, offset)"
    and cor: "corners raster offset = Returns (p00, p01, p10, p11)"
    and v: "valid_sample p00" "valid_sample p01" "valid_sample p10" "valid_sample p11"
  shows "TestNaN_point raster expectedResults it i L =
         obind (load expectedResults (int (expectedResultCursor L))) (\<lambda>expected.
           Returns (advance i x y
             (interpolate (float_of_bits p00) (float_of_bits p01)
                          (float_of_bits p10) (float_of_bits p11) x y xb yb)
             (compare_valid it
               (interpolate (float_of_bits p00) (float_of_bits p01)
                            (float_of_bits p10) (float_of_bits p11) x y xb yb) expected L)))"
proof -
  have "interpolate (float_of_bits p00) (float_of_bits p01)
          (float_of_bits p10) (float_of_bits p11) x y xb yb \<noteq> NaN"
    using interpolate_valid[OF loc v] by (rule bounded_not_NaN)
  then show ?thesis
    by (simp add: TestNaN_point_def fetch_def loc cor Let_def)
qed

lemma fp_max_bounded: "bounded B a \<Longrightarrow> bounded B b \<Longrightarrow> bounded B (fp_max a b)"
  by (simp add: fp_max_def)

lemma bounded_100_below_threshold:
  "bounded 100 v \<Longrightarrow> \<not> fp_ge v (Finite (of_int MISSING_VALUE_THRESHOLD))"
  by (auto simp: bounded_def fp_ge_def MISSING_VALUE_THRESHOLD_def split: fpval.splits)

lemma nodata_point_valid:
  assumes loc: "locate (coordinates L) i = Returns (x, y, xb, yb, offset)"
    and cor: "corners raster offset = Returns (p00, p01, p10, p11)"
    and v: "valid_sample p00" "valid_sample p01" "valid_sample p10" "valid_sample p11"
  shows "TestNodata_point raster expectedResults it i L =
         obind (load expectedResults (int (expectedResultCursor L))) (\<lambda>expected.
           Returns (advance i x y
             (interpolate (float_of_bits p00) (float_of_bits p01)
                          (float_of_bits p10) (float_of_bits p11) x y xb yb)
             (compare_valid it
               (interpolate (float_of_bits p00) (float_of_bits p01)
                            (float_of_bits p10) (float_of_bits p11) x y xb yb) expected L)))"
proof -
  have "bounded 100 (fp_max (fp_max (float_of_bits p00) (float_of_bits p01))
                            (fp_max (float_of_bits p10) (float_of_bits p11)))"
    by (intro fp_max_bounded valid_sample_bounded v)
  then have "\<not> fp_ge (fp_max (fp_max (float_of_bits p00) (float_of_bits p01))
                            (fp_max (float_of_bits p10) (float_of_bits p11)))
                (Finite (of_int MISSING_VALUE_THRESHOLD))"
    by (rule bounded_100_below_threshold)
  then show ?thesis
    by (simp add: TestNodata_point_def fetch_def loc cor Let_def)
qed

lemma nan_point_missing:
  assumes loc: "locate (coordinates L) i = Returns (x, y, xb, yb, offset)"
    and cor: "corners raster offset = Returns (p00, p01, p10, p11)"
    and cells: "\<forall>p \<in> {p00, p01, p10, p11}. nan_cell p"
    and k: "k < 4" "nan_marker k \<in> {p00, p01, p10, p11}"
    and top: "\<forall>j<4. nan_marker j \<in> {p00, p01, p10, p11} \<longrightarrow> j \<le> k"
  shows "TestNaN_point raster expectedResults it i L =
         obind (load expectedResults (int (expectedResultCursor L))) (\<lambda>expected.
           Returns (advance i x y (Finite 1)
             (if fp_ne (Finite (of_int MISSING_VALUE_THRESHOLD + of_nat k)) expected
              then count_mismatch it L else L)))"
proof -
  from k have "float_of_bits p00 = NaN \<or> float_of_bits p01 = NaN \<or>
               float_of_bits p10 = NaN \<or> float_of_bits p11 = NaN"
    using nan_marker_is_nan[OF k(1)] by auto
  then have r: "interpolate (float_of_bits p00) (float_of_bits p01)
          (float_of_bits p10) (float_of_bits p11) x y xb yb = NaN"
    by (rule interpolate_NaN)
  have m: "max_i32 (max_i32 p00 p01) (max_i32 p10 p11) = nan_marker k"
    using cells k top by (rule nan_reason_max)
  show ?thesis
    by (simp add: TestNaN_point_def fetch_def loc cor Let_def r m nodata_of_marker[OF k(1)])
qed

lemma nodata_point_missing:
  assumes loc: "locate (coordinates L) i = Returns (x, y, xb, yb, offset)"
    and cor: "corners raster offset = Returns (p00, p01, p10, p11)"
    and cells: "\<forall>p \<in> {p00, p01, p10, p11}. sentinel_cell p"
    and k: "\<exists>p \<in> {p00, p01, p10, p11}. sentinel_marker k p"
    and top: "\<forall>j<4. (\<exists>p \<in> {p00, p01, p10, p11}. sentinel_marker j p) \<longrightarrow> j \<le> k"
  shows "TestNodata_point raster expectedResults it i L =
         obind (load expectedResults (int (expectedResultCursor L))) (\<lambda>expected.
           Returns (advance i x y (Finite 1)
             (if fp_ne (Finite (of_int MISSING_VALUE_THRESHOLD + of_nat k)) expected
              then count_mismatch it L else L)))"
proof -
  have m: "fp_max (fp_max (float_of_bits p00) (float_of_bits p01))
                  (fp_max (float_of_bits p10) (float_of_bits p11)) =
           Finite (of_int MISSING_VALUE_THRESHOLD + of_nat k)"
    using cells k top by (rule sentinel_reason_max)
  have "fp_ge (Finite (of_int MISSING_VALUE_THRESHOLD + of_nat k))
              (Finite (of_int MISSING_VALUE_THRESHOLD))"
    by (simp add: fp_ge_def)
  then show ?thesis
    by (simp add: TestNodata_point_def fetch_def loc cor Let_def m)
qed

subsection \<open>The two loop bodies on rasters that hold the same\<close>

lemma nan_marker_not_valid: "k < 4 \<Longrightarrow> \<not> valid_sample (nan_marker k)"
  by (simp add: valid_sample_def nan_marker_is_nan)

lemma nan_marker_inj:
  assumes "j < 4" "k < 4" "nan_marker j = nan_marker k"
  shows "j = k"
proof -
  have "sint (nan_marker j) = sint (nan_marker k)" by (simp only: assms(3))
  then have "2143289344 + int j = 2143289344 + int k"
    by (simp only: sint_nan_marker[OF assms(1)] sint_nan_marker[OF assms(2)])
  then show ?thesis by simp
qed

lemma same_cell_nan: "same_cell n s \<Longrightarrow> nan_cell n"
  by (auto simp: same_cell_def nan_cell_def)

lemma same_cell_sentinel: "same_cell n s \<Longrightarrow> sentinel_cell s"
  by (auto simp: same_cell_def sentinel_cell_def)

lemma same_cell_valid: "same_cell n s \<Longrightarrow> valid_sample n \<Longrightarrow> s = n"
  by (auto simp: same_cell_def nan_marker_not_valid)

lemma sentinel_marker_not_valid: "sentinel_marker j s \<Longrightarrow> \<not> valid_sample s"
  by (auto simp: sentinel_marker_def valid_sample_def MISSING_VALUE_THRESHOLD_def)

lemma same_cell_marker_iff:
  assumes "same_cell n s" "j < 4"
  shows "sentinel_marker j s = (n = nan_marker j)"
proof
  assume sm: "sentinel_marker j s"
  from assms(1) show "n = nan_marker j"
    unfolding same_cell_def
  proof (elim disjE conjE exE)
    assume "valid_sample n" "s = n"
    with sm show ?thesis using sentinel_marker_not_valid by blast
  next
    fix k assume k: "k < 4" "n = nan_marker k" "sentinel_marker k s"
    with sm have "(of_nat k :: rat) = of_nat j" by (simp add: sentinel_marker_def)
    then have "k = j" by simp
    with k show ?thesis by simp
  qed
next
  assume n: "n = nan_marker j"
  from assms(1) show "sentinel_marker j s"
    unfolding same_cell_def
  proof (elim disjE conjE exE)
    assume "valid_sample n"
    with n assms(2) show ?thesis using nan_marker_not_valid by blast
  next
    fix k assume k: "k < 4" "n = nan_marker k" "sentinel_marker k s"
    with n assms(2) have "k = j" using nan_marker_inj by blast
    with k show ?thesis by simp
  qed
qed

lemma cells_equiv:
  assumes rel: "same_cell n00 s00" "same_cell n01 s01" "same_cell n10 s10" "same_cell n11 s11"
    and loc: "locate (coordinates L) i = Returns (x, y, xb, yb, offset)"
    and corN: "corners rasterN offset = Returns (n00, n01, n10, n11)"
    and corS: "corners rasterS offset = Returns (s00, s01, s10, s11)"
  shows "TestNaN_point rasterN expectedResults it i L =
         TestNodata_point rasterS expectedResults it i L"
proof (cases "valid_sample n00 \<and> valid_sample n01 \<and> valid_sample n10 \<and> valid_sample n11")
  case True
  then have v: "valid_sample n00" "valid_sample n01" "valid_sample n10" "valid_sample n11"
    by simp_all
  with rel have "s00 = n00" "s01 = n01" "s10 = n10" "s11 = n11"
    by (simp_all add: same_cell_valid)
  with corS have corS': "corners rasterS offset = Returns (n00, n01, n10, n11)" by simp
  show ?thesis
    unfolding nan_point_valid[OF loc corN v] nodata_point_valid[OF loc corS' v] ..
next
  case False
  define K where "K = {j. j < 4 \<and> nan_marker j \<in> {n00, n01, n10, n11}}"
  have cellsN: "\<forall>p \<in> {n00, n01, n10, n11}. nan_cell p"
    using rel by (auto dest: same_cell_nan)
  have cellsS: "\<forall>p \<in> {s00, s01, s10, s11}. sentinel_cell p"
    using rel by (auto dest: same_cell_sentinel)
  from False cellsN have "\<exists>j<4. nan_marker j \<in> {n00, n01, n10, n11}"
    unfolding nan_cell_def by blast
  then have ne: "K \<noteq> {}" by (auto simp: K_def)
  have fin: "finite K" by (simp add: K_def)
  define k where "k = Max K"
  have kK: "k \<in> K" unfolding k_def using fin ne by (rule Max_in)
  then have k: "k < 4" "nan_marker k \<in> {n00, n01, n10, n11}" by (simp_all add: K_def)
  have top: "\<forall>j<4. nan_marker j \<in> {n00, n01, n10, n11} \<longrightarrow> j \<le> k"
  proof (intro allI impI)
    fix j assume "j < 4" "nan_marker j \<in> {n00, n01, n10, n11}"
    then have "j \<in> K" by (simp add: K_def)
    then show "j \<le> k" unfolding k_def using fin by simp
  qed
  have iff: "(\<exists>p \<in> {s00, s01, s10, s11}. sentinel_marker j p) =
             (nan_marker j \<in> {n00, n01, n10, n11})" if "j < 4" for j
    using same_cell_marker_iff[OF rel(1) that] same_cell_marker_iff[OF rel(2) that]
      same_cell_marker_iff[OF rel(3) that] same_cell_marker_iff[OF rel(4) that]
    by auto
  have kS: "\<exists>p \<in> {s00, s01, s10, s11}. sentinel_marker k p"
    using iff[OF k(1)] k(2) by simp
  have topS: "\<forall>j<4. (\<exists>p \<in> {s00, s01, s10, s11}. sentinel_marker j p) \<longrightarrow> j \<le> k"
    using iff top by simp
  show ?thesis
    unfolding nan_point_missing[OF loc corN cellsN k top]
      nodata_point_missing[OF loc corS cellsS kS topS] ..
qed

lemma point_equiv:
  assumes len: "length rasterN = length rasterS"
    and rel: "\<forall>j<length rasterN. same_cell (rasterN ! j) (rasterS ! j)"
  shows "TestNaN_point rasterN expectedResults it i L =
         TestNodata_point rasterS expectedResults it i L"
proof (cases "locate (coordinates L) i")
  case (Returns t)
  obtain x y xb yb offset where t: "t = (x, y, xb, yb, offset)" by (cases t) auto
  with Returns have loc: "locate (coordinates L) i = Returns (x, y, xb, yb, offset)" by simp
  show ?thesis
  proof (cases "0 \<le> offset \<and> offset + WIDTH + 1 < int (length rasterN)")
    case True
    then have corN: "corners rasterN offset =
        Returns (rasterN ! nat offset, rasterN ! nat (offset + 1),
                 rasterN ! nat (offset + WIDTH), rasterN ! nat (offset + WIDTH + 1))"
      by (simp add: corners_eq)
    from True len have corS: "corners rasterS offset =
        Returns (rasterS ! nat offset, rasterS ! nat (offset + 1),
                 rasterS ! nat (offset + WIDTH), rasterS ! nat (offset + WIDTH + 1))"
      by (simp add: corners_eq)
    from True have "nat offset < length rasterN" "nat (offset + 1) < length rasterN"
      "nat (offset + WIDTH) < length rasterN" "nat (offset + WIDTH + 1) < length rasterN"
      unfolding WIDTH_def by linarith+
    with rel have r: "same_cell (rasterN ! nat offset) (rasterS ! nat offset)"
      "same_cell (rasterN ! nat (offset + 1)) (rasterS ! nat (offset + 1))"
      "same_cell (rasterN ! nat (offset + WIDTH)) (rasterS ! nat (offset + WIDTH))"
      "same_cell (rasterN ! nat (offset + WIDTH + 1)) (rasterS ! nat (offset + WIDTH + 1))"
      by blast+
    show ?thesis by (rule cells_equiv[OF r loc corN corS])
  next
    case False
    then have "corners rasterN offset = Undefined" by (simp add: corners_eq)
    moreover from False len have "corners rasterS offset = Undefined" by (simp add: corners_eq)
    ultimately show ?thesis
      by (simp add: TestNaN_point_def TestNodata_point_def fetch_def loc)
  qed
next
  case (Exits n)
  then show ?thesis by (simp add: TestNaN_point_def TestNodata_point_def fetch_def)
next
  case Throws_bad_alloc
  then show ?thesis by (simp add: TestNaN_point_def TestNodata_point_def fetch_def)
next
  case Undefined
  then show ?thesis by (simp add: TestNaN_point_def TestNodata_point_def fetch_def)
qed

lemma body_equiv:
  assumes "length rasterN = length rasterS"
    and "\<forall>j<length rasterN. same_cell (rasterN ! j) (rasterS ! j)"
  shows "TestNaN_point rasterN expectedResults = TestNodata_point rasterS expectedResults"
  by (intro ext) (rule point_equiv[OF assms])

lemma results_of_run:
  "results_of (run body raster coords expectedResults t) =
   obind (iterations_loop (body raster expectedResults) 0
            \<lparr>statistics = errorStatistics t, mismatches = nodataMismatches t,
             coordinates = coords, expectedResultCursor = 0, stats = Finite 0\<rparr>)
         (\<lambda>L. Returns (statistics L, mismatches L))"
  unfolding run_def
  by (cases "iterations_loop (body raster expectedResults) 0
            \<lparr>statistics = errorStatistics t, mismatches = nodataMismatches t,
             coordinates = coords, expectedResultCursor = 0, stats = Finite 0\<rparr>") simp_all

lemma run_equiv:
  assumes "length rasterN = length rasterS"
    and "\<forall>j<length rasterN. same_cell (rasterN ! j) (rasterS ! j)"
    and "errorStatistics tN = errorStatistics tS"
    and "nodataMismatches tN = nodataMismatches tS"
  shows "results_of (run TestNaN_point rasterN coords expectedResults tN) =
         results_of (run TestNodata_point rasterS coords expectedResults tS)"
  unfolding results_of_run body_equiv[OF assms(1,2)] assms(3,4) ..

lemma computeAndCompare_loaded:
  assumes "loadRaster H t = Returns (Some raster)"
    and "loadCoordinates H t = Returns (Some coords)"
    and "loadExpectedResults H t = Returns (Some expectedResults)"
  shows "computeAndCompare body H t = run body raster coords expectedResults t"
  by (simp add: computeAndCompare_def assms)

subsection \<open>Coordinates inside the raster\<close>

lemma base_offset_ints:
  assumes "0 \<le> m" "m \<le> 798" "0 \<le> n" "n \<le> 598"
  shows "base_offset (Finite (of_int m)) (Finite (of_int n)) = Returns (WIDTH * n + m)"
  using assms
  by (simp add: base_offset_def int32_def out_of_bounds_def WIDTH_def HEIGHT_def)

lemma base_offset_in_raster:
  assumes "in_raster x y"
  shows "\<exists>offset. base_offset (fp_floor x) (fp_floor y) = Returns offset \<and> 0 \<le> offset \<and>
           offset + WIDTH + 1 \<le> (HEIGHT - 1) * WIDTH + (WIDTH - 1)"
proof -
  from assms obtain qx qy where x: "x = Finite qx" and y: "y = Finite qy"
    and r: "0 \<le> qx" "qx < 799" "0 \<le> qy" "qy < 599"
    by (auto simp: in_raster_def WIDTH_def HEIGHT_def split: fpval.splits)
  define m n where "m = \<lfloor>qx\<rfloor>" and "n = \<lfloor>qy\<rfloor>"
  from r have "m < 799" "n < 599" by (simp_all add: m_def n_def floor_less_iff)
  moreover from r have "0 \<le> m" "0 \<le> n" by (simp_all add: m_def n_def)
  ultimately have f: "0 \<le> m" "m \<le> 798" "0 \<le> n" "n \<le> 598" by simp_all
  have "base_offset (fp_floor x) (fp_floor y) = Returns (WIDTH * n + m)"
    using base_offset_ints[OF f] by (simp add: x y m_def n_def)
  with f show ?thesis by (simp add: WIDTH_def HEIGHT_def)
qed

lemma locate_in_raster:
  assumes "2 * i + 1 < length coords" "in_raster (coords ! (2 * i)) (coords ! (2 * i + 1))"
  shows "\<exists>offset. locate coords i =
           Returns (coords ! (2 * i), coords ! (2 * i + 1),
                    fp_floor (coords ! (2 * i)), fp_floor (coords ! (2 * i + 1)), offset) \<and>
           0 \<le> offset \<and> offset + WIDTH + 1 \<le> (HEIGHT - 1) * WIDTH + (WIDTH - 1)"
proof -
  from assms(1) have "load coords (int (2 * i)) = Returns (coords ! (2 * i))"
    "load coords (int (2 * i + 1)) = Returns (coords ! (2 * i + 1))"
    by (simp_all only: load_nat) simp_all
  with base_offset_in_raster[OF assms(2)] show ?thesis
    unfolding locate_eq by auto
qed

lemma nan_dominant_reason:
  assumes "\<forall>p \<in> {p00, p01, p10, p11}. nan_cell p"
    and "\<not> (valid_sample p00 \<and> valid_sample p01 \<and> valid_sample p10 \<and> valid_sample p11)"
  shows "\<exists>k<4. nan_marker k \<in> {p00, p01, p10, p11} \<and>
           (\<forall>j<4. nan_marker j \<in> {p00, p01, p10, p11} \<longrightarrow> j \<le> k)"
proof -
  define K where "K = {j. j < 4 \<and> nan_marker j \<in> {p00, p01, p10, p11}}"
  from assms have "\<exists>j<4. nan_marker j \<in> {p00, p01, p10, p11}"
    unfolding nan_cell_def by blast
  then have ne: "K \<noteq> {}" by (auto simp: K_def)
  have fin: "finite K" by (simp add: K_def)
  have "Max K \<in> K" using fin ne by (rule Max_in)
  moreover have "j \<le> Max K" if "j \<in> K" for j using fin that by simp
  ultimately show ?thesis unfolding K_def by blast
qed

lemma sentinel_dominant_reason:
  assumes "\<forall>p \<in> {p00, p01, p10, p11}. sentinel_cell p"
    and "\<not> (valid_sample p00 \<and> valid_sample p01 \<and> valid_sample p10 \<and> valid_sample p11)"
  shows "\<exists>k<4. (\<exists>p \<in> {p00, p01, p10, p11}. sentinel_marker k p) \<and>
           (\<forall>j<4. (\<exists>p \<in> {p00, p01, p10, p11}. sentinel_marker j p) \<longrightarrow> j \<le> k)"
proof -
  define K where "K = {j. j < 4 \<and> (\<exists>p \<in> {p00, p01, p10, p11}. sentinel_marker j p)}"
  from assms have "\<exists>j<4. \<exists>p \<in> {p00, p01, p10, p11}. sentinel_marker j p"
    unfolding sentinel_cell_def by blast
  then have ne: "K \<noteq> {}" by (auto simp: K_def)
  have fin: "finite K" by (simp add: K_def)
  have "Max K \<in> K" using fin ne by (rule Max_in)
  moreover have "j \<le> Max K" if "j \<in> K" for j using fin that by simp
  ultimately show ?thesis unfolding K_def by blast
qed

subsection \<open>The feedback of a result into the coordinates\<close>

lemma keeps_refl [simp]: "keeps L L"
  by (simp add: keeps_def)

lemma keeps_count_mismatch [simp]: "keeps L (count_mismatch it L)"
  by (simp add: keeps_def count_mismatch_def)

lemma keeps_compare_valid [simp]: "keeps L (compare_valid it result expected L)"
  by (simp add: keeps_def compare_valid_def count_mismatch_def)

lemma nan_point_feedback:
  assumes loc: "locate (coordinates L) i = Returns (x, y, xb, yb, offset)"
    and cor: "corners raster offset = Returns (p00, p01, p10, p11)"
    and cells: "\<forall>p \<in> {p00, p01, p10, p11}. nan_cell p"
  shows "\<exists>G. (\<forall>e. keeps L (G e)) \<and>
           TestNaN_point raster expectedResults it i L =
           obind (load expectedResults (int (expectedResultCursor L))) (\<lambda>expected.
             Returns (advance i x y
               (if valid_sample p00 \<and> valid_sample p01 \<and> valid_sample p10 \<and> valid_sample p11
                then interpolate (float_of_bits p00) (float_of_bits p01)
                                 (float_of_bits p10) (float_of_bits p11) x y xb yb
                else Finite 1)
               (G expected)))"
proof (cases "valid_sample p00 \<and> valid_sample p01 \<and> valid_sample p10 \<and> valid_sample p11")
  case True
  then have v: "valid_sample p00" "valid_sample p01" "valid_sample p10" "valid_sample p11"
    by simp_all
  have e: "(if valid_sample p00 \<and> valid_sample p01 \<and> valid_sample p10 \<and> valid_sample p11
              then interpolate (float_of_bits p00) (float_of_bits p01)
                               (float_of_bits p10) (float_of_bits p11) x y xb yb
              else Finite 1) = interpolate (float_of_bits p00) (float_of_bits p01)
                               (float_of_bits p10) (float_of_bits p11) x y xb yb"
    using True by (rule if_P)
  show ?thesis
    unfolding nan_point_valid[OF loc cor v] e
    by (intro exI[of _ "\<lambda>e. compare_valid it (interpolate (float_of_bits p00) (float_of_bits p01)
                                 (float_of_bits p10) (float_of_bits p11) x y xb yb) e L"]) simp
next
  case False
  from nan_dominant_reason[OF cells False] obtain k where
    k: "k < 4" "nan_marker k \<in> {p00, p01, p10, p11}"
    and top: "\<forall>j<4. nan_marker j \<in> {p00, p01, p10, p11} \<longrightarrow> j \<le> k" by blast
  have e: "(if valid_sample p00 \<and> valid_sample p01 \<and> valid_sample p10 \<and> valid_sample p11
              then interpolate (float_of_bits p00) (float_of_bits p01)
                               (float_of_bits p10) (float_of_bits p11) x y xb yb
              else Finite 1) = Finite 1"
    using False by (rule if_not_P)
  show ?thesis
    unfolding nan_point_missing[OF loc cor cells k top] e
    by (intro exI[of _ "\<lambda>e. if fp_ne (Finite (of_int MISSING_VALUE_THRESHOLD + of_nat k)) e
                             then count_mismatch it L else L"]) simp
qed

lemma nodata_point_feedback:
  assumes loc: "locate (coordinates L) i = Returns (x, y, xb, yb, offset)"
    and cor: "corners raster offset = Returns (p00, p01, p10, p11)"
    and cells: "\<forall>p \<in> {p00, p01, p10, p11}. sentinel_cell p"
  shows "\<exists>G. (\<forall>e. keeps L (G e)) \<and>
           TestNodata_point raster expectedResults it i L =
           obind (load expectedResults (int (expectedResultCursor L))) (\<lambda>expected.
             Returns (advance i x y
               (if valid_sample p00 \<and> valid_sample p01 \<and> valid_sample p10 \<and> valid_sample p11
                then interpolate (float_of_bits p00) (float_of_bits p01)
                                 (float_of_bits p10) (float_of_bits p11) x y xb yb
                else Finite 1)
               (G expected)))"
proof (cases "valid_sample p00 \<and> valid_sample p01 \<and> valid_sample p10 \<and> valid_sample p11")
  case True
  then have v: "valid_sample p00" "valid_sample p01" "valid_sample p10" "valid_sample p11"
    by simp_all
  have e: "(if valid_sample p00 \<and> valid_sample p01 \<and> valid_sample p10 \<and> valid_sample p11
              then interpolate (float_of_bits p00) (float_of_bits p01)
                               (float_of_bits p10) (float_of_bits p11) x y xb yb
              else Finite 1) = interpolate (float_of_bits p00) (float_of_bits p01)
                               (float_of_bits p10) (float_of_bits p11) x y xb yb"
    using True by (rule if_P)
  show ?thesis
    unfolding nodata_point_valid[OF loc cor v] e
    by (intro exI[of _ "\<lambda>e. compare_valid it (interpolate (float_of_bits p00) (float_of_bits p01)
                                 (float_of_bits p10) (float_of_bits p11) x y xb yb) e L"]) simp
next
  case False
  from sentinel_dominant_reason[OF cells False] obtain k where
    k4: "k < 4" and k: "\<exists>p \<in> {p00, p01, p10, p11}. sentinel_marker k p"
    and top: "\<forall>j<4. (\<exists>p \<in> {p00, p01, p10, p11}. sentinel_marker j p) \<longrightarrow> j \<le> k" by blast
  have e: "(if valid_sample p00 \<and> valid_sample p01 \<and> valid_sample p10 \<and> valid_sample p11
              then interpolate (float_of_bits p00) (float_of_bits p01)
                               (float_of_bits p10) (float_of_bits p11) x y xb yb
              else Finite 1) = Finite 1"
    using False by (rule if_not_P)
  show ?thesis
    unfolding nodata_point_missing[OF loc cor cells k top] e
    by (intro exI[of _ "\<lambda>e. if fp_ne (Finite (of_int MISSING_VALUE_THRESHOLD + of_nat k)) e
                             then count_mismatch it L else L"]) simp
qed

lemma advance_fields:
  "coordinates (advance i x y r L) =
     (coordinates L)[2 * i := fp_fmod (fp_abs (fp_add x r)) (Finite (of_int (WIDTH - 1))),
                     2 * i + 1 := fp_fmod (fp_abs (fp_add y r)) (Finite (of_int (HEIGHT - 1)))]"
  "expectedResultCursor (advance i x y r L) = expectedResultCursor L + 1"
  "statistics (advance i x y r L) = statistics L"
  "mismatches (advance i x y r L) = mismatches L"
  "stats (advance i x y r L) = stats L"
  by (simp_all only: advance_def Let_def index_bits(1) two_or_one) simp_all

lemma feedback_in_raster:
  assumes "bounded (2 ^ 31) x" "bounded (2 ^ 31) y" "bounded 67789 r"
  shows "in_raster (fp_fmod (fp_abs (fp_add x r)) (Finite (of_int (WIDTH - 1))))
                   (fp_fmod (fp_abs (fp_add y r)) (Finite (of_int (HEIGHT - 1))))"
proof -
  from feedback_range[OF assms(1,3), of "of_int (WIDTH - 1)"] obtain qx where
    "fp_fmod (fp_abs (fp_add x r)) (Finite (of_int (WIDTH - 1))) = Finite qx"
    "0 \<le> qx" "qx < of_int (WIDTH - 1)" by (auto simp: WIDTH_def)
  moreover from feedback_range[OF assms(2,3), of "of_int (HEIGHT - 1)"] obtain qy where
    "fp_fmod (fp_abs (fp_add y r)) (Finite (of_int (HEIGHT - 1))) = Finite qy"
    "0 \<le> qy" "qy < of_int (HEIGHT - 1)" by (auto simp: HEIGHT_def)
  ultimately show ?thesis by (simp add: in_raster_def)
qed

lemma feedback_step:
  assumes body: "B = obind (load er (int (expectedResultCursor L))) (\<lambda>expected.
                       Returns (advance i x y r (G expected)))"
    and G: "\<forall>e. keeps L (G e)"
    and r: "bounded 67789 r"
    and loc: "locate (coordinates L) i = Returns (x, y, xb, yb, offset)"
  shows "expectedResultCursor L < length er \<Longrightarrow> \<exists>L'. B = Returns L'"
    and "B = Returns L' \<Longrightarrow>
           length (coordinates L') = length (coordinates L) \<and>
           in_raster (coordinates L' ! (2 * i)) (coordinates L' ! (2 * i + 1)) \<and>
           (\<forall>j. j \<noteq> 2 * i \<longrightarrow> j \<noteq> 2 * i + 1 \<longrightarrow> coordinates L' ! j = coordinates L ! j) \<and>
           expectedResultCursor L' = expectedResultCursor L + 1 \<and>
           statistics L' = statistics L \<and>
           length (mismatches L') = length (mismatches L)"
    and "B \<noteq> Exits n"
proof -
  show "expectedResultCursor L < length er \<Longrightarrow> \<exists>L'. B = Returns L'"
    unfolding body by (simp add: load_def)
  show "B \<noteq> Exits n"
    unfolding body by (simp add: load_def)
  assume ret: "B = Returns L'"
  then obtain e where L': "L' = advance i x y r (G e)"
    unfolding body obind_Returns_iff by auto
  from G have k: "keeps L (G e)" by blast
  from locate_Returns[OF loc] have idx: "2 * i + 1 < length (coordinates L)" by blast
  from locate_bounded[OF loc] have b: "bounded (2 ^ 31) x" "bounded (2 ^ 31) y" by simp_all
  have inr: "in_raster (fp_fmod (fp_abs (fp_add x r)) (Finite (of_int (WIDTH - 1))))
                       (fp_fmod (fp_abs (fp_add y r)) (Finite (of_int (HEIGHT - 1))))"
    using b r by (rule feedback_in_raster)
  from k idx inr show "length (coordinates L') = length (coordinates L) \<and>
           in_raster (coordinates L' ! (2 * i)) (coordinates L' ! (2 * i + 1)) \<and>
           (\<forall>j. j \<noteq> 2 * i \<longrightarrow> j \<noteq> 2 * i + 1 \<longrightarrow> coordinates L' ! j = coordinates L ! j) \<and>
           expectedResultCursor L' = expectedResultCursor L + 1 \<and>
           statistics L' = statistics L \<and>
           length (mismatches L') = length (mismatches L)"
    unfolding L' advance_fields keeps_def by (simp add: nth_list_update)
qed

lemma corners_cells:
  assumes "corners raster offset = Returns (p00, p01, p10, p11)"
  shows "{p00, p01, p10, p11} \<subseteq> set raster"
proof -
  from assms have r: "0 \<le> offset" "offset + WIDTH + 1 < int (length raster)"
    and c: "p00 = raster ! nat offset" "p01 = raster ! nat (offset + 1)"
       "p10 = raster ! nat (offset + WIDTH)" "p11 = raster ! nat (offset + WIDTH + 1)"
    unfolding corners_eq by (auto split: if_splits)
  from r have "nat offset < length raster" "nat (offset + 1) < length raster"
      "nat (offset + WIDTH) < length raster" "nat (offset + WIDTH + 1) < length raster"
    unfolding WIDTH_def by linarith+
  then show ?thesis unfolding c by simp
qed

lemma fetch_Returns:
  assumes "fetch raster coords i = Returns t"
  shows "\<exists>x y xb yb offset p00 p01 p10 p11.
           t = (x, y, xb, yb, p00, p01, p10, p11) \<and>
           locate coords i = Returns (x, y, xb, yb, offset) \<and>
           corners raster offset = Returns (p00, p01, p10, p11)"
proof -
  from assms obtain a where a: "locate coords i = Returns a"
    and r: "(case a of (x, y, xb, yb, offset) \<Rightarrow>
              obind (corners raster offset) (\<lambda>(p00, p01, p10, p11).
                Returns (x, y, xb, yb, p00, p01, p10, p11))) = Returns t"
    unfolding fetch_def obind_Returns_iff by blast
  obtain x y xb yb offset where a': "a = (x, y, xb, yb, offset)" by (cases a) auto
  from r obtain c where c: "corners raster offset = Returns c"
    and r': "(case c of (p00, p01, p10, p11) \<Rightarrow> Returns (x, y, xb, yb, p00, p01, p10, p11)) = Returns t"
    unfolding a' by (auto simp: obind_Returns_iff)
  obtain p00 p01 p10 p11 where c': "c = (p00, p01, p10, p11)" by (cases c) auto
  from r' have "t = (x, y, xb, yb, p00, p01, p10, p11)" unfolding c' by simp
  with a a' c c' show ?thesis by blast
qed

lemma nan_point_stepped:
  assumes cells: "\<forall>p \<in> set raster. nan_cell p"
    and ret: "TestNaN_point raster er it i L = Returns L'"
  shows "stepped i L L'"
proof -
  from ret obtain t where f: "fetch raster (coordinates L) i = Returns t"
    unfolding TestNaN_point_def obind_Returns_iff by blast
  from fetch_Returns[OF f] obtain x y xb yb offset p00 p01 p10 p11 where
    loc: "locate (coordinates L) i = Returns (x, y, xb, yb, offset)" and
    cor: "corners raster offset = Returns (p00, p01, p10, p11)"
    by blast
  from corners_cells[OF cor] cells have c: "\<forall>p \<in> {p00, p01, p10, p11}. nan_cell p" by blast
  from nan_point_feedback[OF loc cor c, of er it] obtain G where
    G: "\<forall>e. keeps L (G e)" and
    b: "TestNaN_point raster er it i L =
          obind (load er (int (expectedResultCursor L))) (\<lambda>expected.
             Returns (advance i x y
               (if valid_sample p00 \<and> valid_sample p01 \<and> valid_sample p10 \<and> valid_sample p11
                then interpolate (float_of_bits p00) (float_of_bits p01)
                                 (float_of_bits p10) (float_of_bits p11) x y xb yb
                else Finite 1)
               (G expected)))" by blast
  have r: "bounded 67789 (if valid_sample p00 \<and> valid_sample p01 \<and> valid_sample p10 \<and> valid_sample p11
                then interpolate (float_of_bits p00) (float_of_bits p01)
                                 (float_of_bits p10) (float_of_bits p11) x y xb yb
                else Finite 1)"
    using interpolate_valid[OF loc] by simp
  from feedback_step(2)[OF b G r loc ret] show ?thesis by (simp add: stepped_def)
qed

lemma nodata_point_stepped:
  assumes cells: "\<forall>p \<in> set raster. sentinel_cell p"
    and ret: "TestNodata_point raster er it i L = Returns L'"
  shows "stepped i L L'"
proof -
  from ret obtain t where f: "fetch raster (coordinates L) i = Returns t"
    unfolding TestNodata_point_def obind_Returns_iff by blast
  from fetch_Returns[OF f] obtain x y xb yb offset p00 p01 p10 p11 where
    loc: "locate (coordinates L) i = Returns (x, y, xb, yb, offset)" and
    cor: "corners raster offset = Returns (p00, p01, p10, p11)"
    by blast
  from corners_cells[OF cor] cells have c: "\<forall>p \<in> {p00, p01, p10, p11}. sentinel_cell p" by blast
  from nodata_point_feedback[OF loc cor c, of er it] obtain G where
    G: "\<forall>e. keeps L (G e)" and
    b: "TestNodata_point raster er it i L =
          obind (load er (int (expectedResultCursor L))) (\<lambda>expected.
             Returns (advance i x y
               (if valid_sample p00 \<and> valid_sample p01 \<and> valid_sample p10 \<and> valid_sample p11
                then interpolate (float_of_bits p00) (float_of_bits p01)
                                 (float_of_bits p10) (float_of_bits p11) x y xb yb
                else Finite 1)
               (G expected)))" by blast
  have r: "bounded 67789 (if valid_sample p00 \<and> valid_sample p01 \<and> valid_sample p10 \<and> valid_sample p11
                then interpolate (float_of_bits p00) (float_of_bits p01)
                                 (float_of_bits p10) (float_of_bits p11) x y xb yb
                else Finite 1)"
    using interpolate_valid[OF loc] by simp
  from feedback_step(2)[OF b G r loc ret] show ?thesis by (simp add: stepped_def)
qed

lemma nan_point_returns:
  assumes len: "length raster = nat (WIDTH * HEIGHT)"
    and cells: "\<forall>p \<in> set raster. nan_cell p"
    and idx: "2 * i + 1 < length (coordinates L)"
    and inr: "in_raster (coordinates L ! (2 * i)) (coordinates L ! (2 * i + 1))"
    and cur: "expectedResultCursor L < length er"
  shows "\<exists>L'. TestNaN_point raster er it i L = Returns L'"
proof -
  from locate_in_raster[OF idx inr] obtain offset where
    loc: "locate (coordinates L) i =
           Returns (coordinates L ! (2 * i), coordinates L ! (2 * i + 1),
                    fp_floor (coordinates L ! (2 * i)), fp_floor (coordinates L ! (2 * i + 1)), offset)"
    and off: "0 \<le> offset" "offset + WIDTH + 1 \<le> (HEIGHT - 1) * WIDTH + (WIDTH - 1)" by blast
  from off len have "0 \<le> offset \<and> offset + WIDTH + 1 < int (length raster)"
    by (simp add: WIDTH_def HEIGHT_def)
  then obtain p00 p01 p10 p11 where cor: "corners raster offset = Returns (p00, p01, p10, p11)"
    by (simp add: corners_eq)
  from corners_cells[OF cor] cells have c: "\<forall>p \<in> {p00, p01, p10, p11}. nan_cell p" by blast
  from nan_point_feedback[OF loc cor c, of er it] obtain G where
    G: "\<forall>e. keeps L (G e)" and
    b: "TestNaN_point raster er it i L =
          obind (load er (int (expectedResultCursor L))) (\<lambda>expected.
             Returns (advance i (coordinates L ! (2 * i)) (coordinates L ! (2 * i + 1))
               (if valid_sample p00 \<and> valid_sample p01 \<and> valid_sample p10 \<and> valid_sample p11
                then interpolate (float_of_bits p00) (float_of_bits p01)
                                 (float_of_bits p10) (float_of_bits p11)
                       (coordinates L ! (2 * i)) (coordinates L ! (2 * i + 1))
                       (fp_floor (coordinates L ! (2 * i))) (fp_floor (coordinates L ! (2 * i + 1)))
                else Finite 1)
               (G expected)))" by blast
  show ?thesis unfolding b using cur by (simp add: load_def)
qed

lemma nodata_point_returns:
  assumes len: "length raster = nat (WIDTH * HEIGHT)"
    and cells: "\<forall>p \<in> set raster. sentinel_cell p"
    and idx: "2 * i + 1 < length (coordinates L)"
    and inr: "in_raster (coordinates L ! (2 * i)) (coordinates L ! (2 * i + 1))"
    and cur: "expectedResultCursor L < length er"
  shows "\<exists>L'. TestNodata_point raster er it i L = Returns L'"
proof -
  from locate_in_raster[OF idx inr] obtain offset where
    loc: "locate (coordinates L) i =
           Returns (coordinates L ! (2 * i), coordinates L ! (2 * i + 1),
                    fp_floor (coordinates L ! (2 * i)), fp_floor (coordinates L ! (2 * i + 1)), offset)"
    and off: "0 \<le> offset" "offset + WIDTH + 1 \<le> (HEIGHT - 1) * WIDTH + (WIDTH - 1)" by blast
  from off len have "0 \<le> offset \<and> offset + WIDTH + 1 < int (length raster)"
    by (simp add: WIDTH_def HEIGHT_def)
  then obtain p00 p01 p10 p11 where cor: "corners raster offset = Returns (p00, p01, p10, p11)"
    by (simp add: corners_eq)
  from corners_cells[OF cor] cells have c: "\<forall>p \<in> {p00, p01, p10, p11}. sentinel_cell p" by blast
  from nodata_point_feedback[OF loc cor c, of er it] obtain G where
    b: "TestNodata_point raster er it i L =
          obind (load er (int (expectedResultCursor L))) (\<lambda>expected.
             Returns (advance i (coordinates L ! (2 * i)) (coordinates L ! (2 * i + 1))
               (if valid_sample p00 \<and> valid_sample p01 \<and> valid_sample p10 \<and> valid_sample p11
                then interpolate (float_of_bits p00) (float_of_bits p01)
                                 (float_of_bits p10) (float_of_bits p11)
                       (coordinates L ! (2 * i)) (coordinates L ! (2 * i + 1))
                       (fp_floor (coordinates L ! (2 * i))) (fp_floor (coordinates L ! (2 * i + 1)))
                else Finite 1)
               (G expected)))" by blast
  show ?thesis unfolding b using cur by (simp add: load_def)
qed

subsection \<open>The loops\<close>

lemma stepped_all_in_raster:
  assumes "stepped i L L'" "all_in_raster (coordinates L)"
  shows "all_in_raster (coordinates L')"
  unfolding all_in_raster_def
proof (intro conjI allI impI)
  from assms show "length (coordinates L') = 2 * NUM_INTERPOLATION_POINTS"
    by (simp add: stepped_def all_in_raster_def)
  fix j assume j: "j < NUM_INTERPOLATION_POINTS"
  show "in_raster (coordinates L' ! (2 * j)) (coordinates L' ! (2 * j + 1))"
  proof (cases "j = i")
    case True
    with assms(1) show ?thesis by (simp add: stepped_def)
  next
    case False
    then have "2 * j \<noteq> 2 * i" "2 * j \<noteq> 2 * i + 1" "2 * j + 1 \<noteq> 2 * i" "2 * j + 1 \<noteq> 2 * i + 1"
      by presburger+
    with assms(1) have "coordinates L' ! (2 * j) = coordinates L ! (2 * j)"
      "coordinates L' ! (2 * j + 1) = coordinates L ! (2 * j + 1)"
      unfolding stepped_def by blast+
    with assms(2) j show ?thesis by (simp add: all_in_raster_def)
  qed
qed

lemma points_loop_returns:
  assumes ret: "\<And>i L. i < NUM_INTERPOLATION_POINTS \<Longrightarrow> all_in_raster (coordinates L) \<Longrightarrow>
                  expectedResultCursor L < length er \<Longrightarrow> \<exists>L'. body it i L = Returns L'"
    and st: "\<And>i L L'. body it i L = Returns L' \<Longrightarrow> stepped i L L'"
  shows "all_in_raster (coordinates L) \<Longrightarrow>
         expectedResultCursor L + (NUM_INTERPOLATION_POINTS - i) \<le> length er \<Longrightarrow>
         \<exists>L'. points_loop body it i L = Returns L' \<and> all_in_raster (coordinates L') \<and>
              expectedResultCursor L' = expectedResultCursor L + (NUM_INTERPOLATION_POINTS - i) \<and>
              statistics L' = statistics L \<and> length (mismatches L') = length (mismatches L)"
proof (induction "NUM_INTERPOLATION_POINTS - i" arbitrary: i L)
  case 0
  then have "\<not> i < NUM_INTERPOLATION_POINTS" by simp
  then have "points_loop body it i L = Returns L" by (subst points_loop.simps) simp
  with 0 show ?case by simp
next
  case (Suc n)
  then have i: "i < NUM_INTERPOLATION_POINTS" by simp
  with Suc.prems have cur: "expectedResultCursor L < length er" by simp
  from ret[OF i Suc.prems(1) cur] obtain L1 where b: "body it i L = Returns L1" by blast
  from st[OF b] have s1: "stepped i L L1" .
  then have inv1: "all_in_raster (coordinates L1)" using Suc.prems(1) by (rule stepped_all_in_raster)
  from s1 have c1: "expectedResultCursor L1 = expectedResultCursor L + 1"
    and k1: "statistics L1 = statistics L" "length (mismatches L1) = length (mismatches L)"
    by (simp_all add: stepped_def)
  from Suc.hyps(2) have n: "n = NUM_INTERPOLATION_POINTS - (i + 1)" by simp
  from c1 Suc.prems(2) i have
    "expectedResultCursor L1 + (NUM_INTERPOLATION_POINTS - (i + 1)) \<le> length er" by simp
  from Suc.hyps(1)[OF n inv1 this] obtain L' where
    r: "points_loop body it (i + 1) L1 = Returns L'" "all_in_raster (coordinates L')"
       "expectedResultCursor L' = expectedResultCursor L1 + (NUM_INTERPOLATION_POINTS - (i + 1))"
       "statistics L' = statistics L1" "length (mismatches L') = length (mismatches L1)"
    by blast
  have "points_loop body it i L = points_loop body it (i + 1) L1"
    using i b by (subst points_loop.simps) simp
  with r c1 k1 i show ?case by simp
qed

lemma points_loop_establishes:
  assumes st: "\<And>i L L'. body it i L = Returns L' \<Longrightarrow> stepped i L L'"
  shows "points_loop body it i L = Returns L' \<Longrightarrow>
         \<forall>j<i. in_raster (coordinates L ! (2 * j)) (coordinates L ! (2 * j + 1)) \<Longrightarrow>
         (\<forall>j<NUM_INTERPOLATION_POINTS.
            in_raster (coordinates L' ! (2 * j)) (coordinates L' ! (2 * j + 1))) \<and>
         length (coordinates L') = length (coordinates L)"
proof (induction "NUM_INTERPOLATION_POINTS - i" arbitrary: i L)
  case 0
  then have ni: "\<not> i < NUM_INTERPOLATION_POINTS" by simp
  then have "points_loop body it i L = Returns L" by (subst points_loop.simps) simp
  with 0 ni show ?case by simp
next
  case (Suc n)
  then have i: "i < NUM_INTERPOLATION_POINTS" by simp
  have unf: "points_loop body it i L =
        (case body it i L of Returns L1 \<Rightarrow> points_loop body it (i + 1) L1
         | Exits n \<Rightarrow> Exits n | Throws_bad_alloc \<Rightarrow> Throws_bad_alloc | Undefined \<Rightarrow> Undefined)"
    using i by (subst points_loop.simps) simp
  with Suc.prems(1) obtain L1 where b: "body it i L = Returns L1"
    and rest: "points_loop body it (i + 1) L1 = Returns L'"
    by (cases "body it i L") simp_all
  from st[OF b] have s1: "stepped i L L1" .
  have pre: "\<forall>j<i + 1. in_raster (coordinates L1 ! (2 * j)) (coordinates L1 ! (2 * j + 1))"
  proof (intro allI impI)
    fix j assume j: "j < i + 1"
    show "in_raster (coordinates L1 ! (2 * j)) (coordinates L1 ! (2 * j + 1))"
    proof (cases "j = i")
      case True
      with s1 show ?thesis by (simp add: stepped_def)
    next
      case False
      then have "2 * j \<noteq> 2 * i" "2 * j \<noteq> 2 * i + 1" "2 * j + 1 \<noteq> 2 * i" "2 * j + 1 \<noteq> 2 * i + 1"
        by presburger+
      with s1 have "coordinates L1 ! (2 * j) = coordinates L ! (2 * j)"
        "coordinates L1 ! (2 * j + 1) = coordinates L ! (2 * j + 1)"
        unfolding stepped_def by blast+
      moreover from False j have "j < i" by simp
      ultimately show ?thesis using Suc.prems(2) by simp
    qed
  qed
  from Suc.hyps(2) have n: "n = NUM_INTERPOLATION_POINTS - (i + 1)" by simp
  from Suc.hyps(1)[OF n rest pre] s1 show ?case by (simp add: stepped_def)
qed

subsection \<open>The loaded buffers\<close>

lemma chunks_concat_replicate:
  assumes "length xs = n" "0 < n"
  shows "chunks n (concat (replicate m xs)) = replicate m xs"
proof (induction m)
  case 0
  show ?case using assms(2) by (subst chunks.simps) simp
next
  case (Suc m)
  have "chunks n (concat (replicate (Suc m) xs)) = xs # chunks n (concat (replicate m xs))"
    using assms by (subst chunks.simps) simp
  with Suc show ?case by simp
qed

lemma length_chunks: "0 < n \<Longrightarrow> length (chunks n xs) = length xs div n"
proof (induction n xs rule: chunks.induct)
  case (1 n xs)
  show ?case
  proof (cases "length xs < n")
    case True
    then show ?thesis by (subst chunks.simps) simp
  next
    case False
    with 1 have "length (chunks n (drop n xs)) = length (drop n xs) div n" by simp
    moreover have "chunks n xs = take n xs # chunks n (drop n xs)"
      using False "1.prems" by (subst chunks.simps) simp
    ultimately show ?thesis using False "1.prems" by (simp add: le_div_geq)
  qed
qed

lemma iterations_loop_returns:
  assumes ret: "\<And>it i L. i < NUM_INTERPOLATION_POINTS \<Longrightarrow> all_in_raster (coordinates L) \<Longrightarrow>
                  expectedResultCursor L < length er \<Longrightarrow> \<exists>L'. body it i L = Returns L'"
    and st: "\<And>it i L L'. body it i L = Returns L' \<Longrightarrow> stepped i L L'"
  shows "all_in_raster (coordinates L) \<Longrightarrow>
         expectedResultCursor L + (NUM_VERIFIED_ITERATIONS - it) * NUM_INTERPOLATION_POINTS
           \<le> length er \<Longrightarrow>
         \<exists>L'. iterations_loop body it L = Returns L' \<and> all_in_raster (coordinates L') \<and>
              length (statistics L') = length (statistics L) \<and>
              length (mismatches L') = length (mismatches L)"
proof (induction "NUM_VERIFIED_ITERATIONS - it" arbitrary: it L)
  case 0
  then have "\<not> it < NUM_VERIFIED_ITERATIONS" by simp
  then have "iterations_loop body it L = Returns L" by (subst iterations_loop.simps) simp
  with 0 show ?case by simp
next
  case (Suc n)
  then have it: "it < NUM_VERIFIED_ITERATIONS" by simp
  let ?L0 = "L\<lparr>stats := statistics L ! it\<rparr>"
  have inv0: "all_in_raster (coordinates ?L0)" using Suc.prems(1) by simp
  from it have "NUM_VERIFIED_ITERATIONS - it = Suc (NUM_VERIFIED_ITERATIONS - (it + 1))" by simp
  with Suc.prems(2) have room:
    "expectedResultCursor L + NUM_INTERPOLATION_POINTS +
       (NUM_VERIFIED_ITERATIONS - (it + 1)) * NUM_INTERPOLATION_POINTS \<le> length er"
    by simp
  then have room0: "expectedResultCursor ?L0 + (NUM_INTERPOLATION_POINTS - 0) \<le> length er"
    by simp
  have "\<exists>L'. points_loop body it 0 ?L0 = Returns L' \<and> all_in_raster (coordinates L') \<and>
              expectedResultCursor L' = expectedResultCursor ?L0 + (NUM_INTERPOLATION_POINTS - 0) \<and>
              statistics L' = statistics ?L0 \<and> length (mismatches L') = length (mismatches ?L0)"
  proof (rule points_loop_returns[where er = er])
    show "\<And>i L. i < NUM_INTERPOLATION_POINTS \<Longrightarrow> all_in_raster (coordinates L) \<Longrightarrow>
            expectedResultCursor L < length er \<Longrightarrow> \<exists>L'. body it i L = Returns L'"
      by (rule ret)
    show "\<And>i L L'. body it i L = Returns L' \<Longrightarrow> stepped i L L'" by (rule st)
    show "all_in_raster (coordinates ?L0)" by (rule inv0)
    show "expectedResultCursor ?L0 + (NUM_INTERPOLATION_POINTS - 0) \<le> length er" by (rule room0)
  qed
  then obtain L1 where
    r1: "points_loop body it 0 ?L0 = Returns L1" "all_in_raster (coordinates L1)"
        "expectedResultCursor L1 = expectedResultCursor L + NUM_INTERPOLATION_POINTS"
        "statistics L1 = statistics L" "length (mismatches L1) = length (mismatches L)"
    by auto
  let ?L2 = "L1\<lparr>statistics := (statistics L1)[it := stats L1]\<rparr>"
  have inv2: "all_in_raster (coordinates ?L2)" using r1(2) by simp
  from Suc.hyps(2) have n: "n = NUM_VERIFIED_ITERATIONS - (it + 1)" by simp
  from room r1(3) have
    "expectedResultCursor ?L2 + (NUM_VERIFIED_ITERATIONS - (it + 1)) * NUM_INTERPOLATION_POINTS
       \<le> length er" by simp
  from Suc.hyps(1)[OF n inv2 this] obtain L' where
    r: "iterations_loop body (it + 1) ?L2 = Returns L'" "all_in_raster (coordinates L')"
       "length (statistics L') = length (statistics ?L2)"
       "length (mismatches L') = length (mismatches ?L2)"
    by blast
  have "iterations_loop body it L = iterations_loop body (it + 1) ?L2"
    using it r1(1) by (subst iterations_loop.simps) simp
  with r r1 show ?case by simp
qed

lemma nan_run_returns:
  assumes len: "length raster = nat (WIDTH * HEIGHT)"
    and cells: "\<forall>p \<in> set raster. nan_cell p"
    and coords: "all_in_raster coords"
    and er: "NUM_VERIFIED_ITERATIONS * NUM_INTERPOLATION_POINTS \<le> length er"
  shows "\<exists>es nm. results_of (run TestNaN_point raster coords er t) = Returns (es, nm) \<and>
           length es = length (errorStatistics t) \<and> length nm = length (nodataMismatches t)"
proof -
  let ?L = "\<lparr>statistics = errorStatistics t, mismatches = nodataMismatches t,
             coordinates = coords, expectedResultCursor = 0, stats = Finite 0\<rparr>"
  have "\<exists>L'. iterations_loop (TestNaN_point raster er) 0 ?L = Returns L' \<and>
              all_in_raster (coordinates L') \<and>
              length (statistics L') = length (statistics ?L) \<and>
              length (mismatches L') = length (mismatches ?L)"
  proof (rule iterations_loop_returns[where er = er])
    fix it i and L :: frame
    assume i: "i < NUM_INTERPOLATION_POINTS" and a: "all_in_raster (coordinates L)"
      and c: "expectedResultCursor L < length er"
    from i a have "2 * i + 1 < length (coordinates L)"
      "in_raster (coordinates L ! (2 * i)) (coordinates L ! (2 * i + 1))"
      by (simp_all add: all_in_raster_def)
    then show "\<exists>L'. TestNaN_point raster er it i L = Returns L'"
      using c by (intro nan_point_returns[OF len cells])
  next
    fix it i and L L' :: frame
    assume "TestNaN_point raster er it i L = Returns L'"
    then show "stepped i L L'" by (rule nan_point_stepped[OF cells])
  next
    show "all_in_raster (coordinates ?L)" using coords by simp
    show "expectedResultCursor ?L + (NUM_VERIFIED_ITERATIONS - 0) * NUM_INTERPOLATION_POINTS
            \<le> length er" using er by simp
  qed
  then show ?thesis unfolding results_of_run by auto
qed

lemma nodata_run_returns:
  assumes len: "length raster = nat (WIDTH * HEIGHT)"
    and cells: "\<forall>p \<in> set raster. sentinel_cell p"
    and coords: "all_in_raster coords"
    and er: "NUM_VERIFIED_ITERATIONS * NUM_INTERPOLATION_POINTS \<le> length er"
  shows "\<exists>es nm. results_of (run TestNodata_point raster coords er t) = Returns (es, nm) \<and>
           length es = length (errorStatistics t) \<and> length nm = length (nodataMismatches t)"
proof -
  let ?L = "\<lparr>statistics = errorStatistics t, mismatches = nodataMismatches t,
             coordinates = coords, expectedResultCursor = 0, stats = Finite 0\<rparr>"
  have "\<exists>L'. iterations_loop (TestNodata_point raster er) 0 ?L = Returns L' \<and>
              all_in_raster (coordinates L') \<and>
              length (statistics L') = length (statistics ?L) \<and>
              length (mismatches L') = length (mismatches ?L)"
  proof (rule iterations_loop_returns[where er = er])
    fix it i and L :: frame
    assume i: "i < NUM_INTERPOLATION_POINTS" and a: "all_in_raster (coordinates L)"
      and c: "expectedResultCursor L < length er"
    from i a have "2 * i + 1 < length (coordinates L)"
      "in_raster (coordinates L ! (2 * i)) (coordinates L ! (2 * i + 1))"
      by (simp_all add: all_in_raster_def)
    then show "\<exists>L'. TestNodata_point raster er it i L = Returns L'"
      using c by (intro nodata_point_returns[OF len cells])
  next
    fix it i and L L' :: frame
    assume "TestNodata_point raster er it i L = Returns L'"
    then show "stepped i L L'" by (rule nodata_point_stepped[OF cells])
  next
    show "all_in_raster (coordinates ?L)" using coords by simp
    show "expectedResultCursor ?L + (NUM_VERIFIED_ITERATIONS - 0) * NUM_INTERPOLATION_POINTS
            \<le> length er" using er by simp
  qed
  then show ?thesis unfolding results_of_run by auto
qed

lemma loadRaster_length:
  assumes "loadRaster H t = Returns (Some raster)"
  shows "length raster = nat (WIDTH * HEIGHT)"
proof -
  from assms obtain bytes where b: "readAllBytes H (rasterFile t) (nat (WIDTH * HEIGHT) * 4) = Returns (Some bytes)"
    and r: "raster = (let p = map (word_of_bytes (native H)) (chunks 4 bytes)
                      in if native H \<noteq> byteOrder t then map swap32 p else p)"
    unfolding loadRaster_def obind_Returns_iff by (auto simp: Let_def split: option.splits)
  from readAllBytes_buffer[OF b] have "length bytes = nat (WIDTH * HEIGHT) * 4" by simp
  then show ?thesis unfolding r by (simp add: Let_def length_chunks)
qed

lemma loadDoubles_length:
  assumes "loadDoubles H file n = Returns (Some ds)"
  shows "length ds = n"
proof -
  from assms obtain bytes where b: "readAllBytes H file (n * 8) = Returns (Some bytes)"
    and r: "ds = map double_of_bits
             (toNativeByteOrder H (map (word_of_bytes (native H)) (chunks 8 bytes)))"
    unfolding loadDoubles_def obind_Returns_iff by (auto split: option.splits)
  from readAllBytes_buffer[OF b] have "length bytes = n * 8" by simp
  then show ?thesis unfolding r by (simp add: toNativeByteOrder_def length_chunks)
qed

subsection \<open>The example host\<close>

lemma length_concat_replicate: "length (concat (replicate m xs)) = m * length xs"
  by (induction m) simp_all

lemma take_concat_replicate:
  "k \<le> m \<Longrightarrow> take (k * length xs) (concat (replicate m xs)) = concat (replicate k xs)"
proof (induction k arbitrary: m)
  case 0
  show ?case by simp
next
  case (Suc k)
  then obtain m' where m: "m = Suc m'" by (cases m) simp_all
  with Suc.prems have "k \<le> m'" by simp
  from Suc.IH[OF this] show ?case unfolding m by simp
qed

lemma example_raster_nan:
  "loadRaster example_host (TestCase_new True big) = Returns (Some (replicate 480000 0x7FC00001))"
proof -
  have w: "swap32 (word_of_bytes little [0x7F, 0xC0, 0x00, 0x01]) = 0x7FC00001"
    by (simp add: swap32_def word_of_bytes_def)
  have "readAllBytes example_host ''../generated-data/nan/big-endian.raw'' 1920000 =
          Returns (Some (concat (replicate 480000 [0x7F, 0xC0, 0x00, 0x01])))"
    by (simp add: readAllBytes_def example_host_def length_concat_replicate)
  then show ?thesis
    by (simp add: loadRaster_def TestCase_new_def example_host_def WIDTH_def HEIGHT_def
        chunks_concat_replicate w)
qed

lemma example_raster_nodata:
  "loadRaster example_host (TestCase_new False little) =
     Returns (Some (replicate 480000 0x461C4400))"
proof -
  have w: "word_of_bytes little [0x00, 0x44, 0x1C, 0x46] = (0x461C4400 :: 32 word)"
    by (simp add: word_of_bytes_def)
  have "readAllBytes example_host ''../generated-data/nodata/little-endian.raw'' 1920000 =
          Returns (Some (concat (replicate 480000 [0x00, 0x44, 0x1C, 0x46])))"
    by (simp add: readAllBytes_def example_host_def length_concat_replicate)
  then show ?thesis
    by (simp add: loadRaster_def TestCase_new_def example_host_def WIDTH_def HEIGHT_def
        chunks_concat_replicate w)
qed

lemma example_doubles:
  assumes "file \<noteq> ''../generated-data/nan/big-endian.raw''"
    and "file \<noteq> ''../generated-data/nodata/little-endian.raw''"
    and "n \<le> 200000"
  shows "loadDoubles example_host file n = Returns (Some (replicate n (Finite 0)))"
proof -
  have w: "double_of_bits (swap64 (word_of_bytes little [0, 0, 0, 0, 0, 0, 0, 0])) = Finite 0"
    by (simp add: swap64_def word_of_bytes_def double_of_bits_def ieee_value_def)
  have l: "length [0, 0, 0, 0, 0, 0, 0, 0 :: 8 word] = 8" by simp
  have "take (n * 8) (concat (replicate 200000 [0, 0, 0, 0, 0, 0, 0, 0 :: 8 word])) =
        concat (replicate n [0, 0, 0, 0, 0, 0, 0, 0])"
    unfolding l[symmetric] using assms(3) by (rule take_concat_replicate)
  then have "readAllBytes example_host file (n * 8) =
          Returns (Some (concat (replicate n [0, 0, 0, 0, 0, 0, 0, 0])))"
    using assms by (simp add: readAllBytes_def example_host_def length_concat_replicate)
  then show ?thesis
    by (simp add: loadDoubles_def example_host_def toNativeByteOrder_def
        chunks_concat_replicate w)
qed

lemma example_same_cells:
  "\<forall>j<nat (WIDTH * HEIGHT).
     same_cell (replicate 480000 0x7FC00001 ! j) (replicate 480000 0x461C4400 ! j)"
proof -
  have "same_cell 0x7FC00001 0x461C4400"
    unfolding same_cell_def
    by (intro disjI2 exI[of _ 1])
       (simp add: nan_marker_def FIRST_QUIET_NAN_def sentinel_marker_def float_of_bits_def
          ieee_value_def MISSING_VALUE_THRESHOLD_def)
  then show ?thesis by (simp add: WIDTH_def HEIGHT_def)
qed

lemma example_coordinates: "all_in_raster (replicate 40000 (Finite 0))"
  by (simp add: all_in_raster_def in_raster_def NUM_INTERPOLATION_POINTS_def WIDTH_def HEIGHT_def)

subsection \<open>Equivalence of the two variants\<close>

text \<open>
  Claim C1. Let the NaN variant and the sentinel variant load rasters that hold the same in
  every cell (the same valid sample, or a missing sample of the same reason), and the same
  coordinates and expected results. Then the two calls of \<open>computeAndCompare\<close> end in the same
  way, and when they return, \<open>errorStatistics\<close> and \<open>nodataMismatches\<close> of the two objects are
  equal at every iteration. When moreover the coordinates lie inside the raster, the calls do
  return, with one entry per iteration in each array.
\<close>

theorem variants_produce_equal_results:
  assumes rN: "loadRaster H (TestCase_new True orderN) = Returns (Some rasterN)"
    and rS: "loadRaster H (TestCase_new False orderS) = Returns (Some rasterS)"
    and cN: "loadCoordinates H (TestCase_new True orderN) = Returns (Some coords)"
    and cS: "loadCoordinates H (TestCase_new False orderS) = Returns (Some coords)"
    and eN: "loadExpectedResults H (TestCase_new True orderN) = Returns (Some expectedResults)"
    and eS: "loadExpectedResults H (TestCase_new False orderS) = Returns (Some expectedResults)"
    and rel: "\<forall>j<nat (WIDTH * HEIGHT). same_cell (rasterN ! j) (rasterS ! j)"
  shows "results_of (TestNaN_computeAndCompare H (TestCase_new True orderN)) =
         results_of (TestNodata_computeAndCompare H (TestCase_new False orderS)) \<and>
         (all_in_raster coords \<longrightarrow>
            (\<exists>es nm. results_of (TestNaN_computeAndCompare H (TestCase_new True orderN)) =
                       Returns (es, nm) \<and>
                     length es = NUM_VERIFIED_ITERATIONS \<and> length nm = NUM_VERIFIED_ITERATIONS))"
proof (intro conjI impI)
  have lN: "length rasterN = nat (WIDTH * HEIGHT)" using rN by (rule loadRaster_length)
  have lS: "length rasterS = nat (WIDTH * HEIGHT)" using rS by (rule loadRaster_length)
  have cN': "TestNaN_computeAndCompare H (TestCase_new True orderN) =
             run TestNaN_point rasterN coords expectedResults (TestCase_new True orderN)"
    unfolding TestNaN_computeAndCompare_def by (rule computeAndCompare_loaded[OF rN cN eN])
  have cS': "TestNodata_computeAndCompare H (TestCase_new False orderS) =
             run TestNodata_point rasterS coords expectedResults (TestCase_new False orderS)"
    unfolding TestNodata_computeAndCompare_def by (rule computeAndCompare_loaded[OF rS cS eS])
  show "results_of (TestNaN_computeAndCompare H (TestCase_new True orderN)) =
        results_of (TestNodata_computeAndCompare H (TestCase_new False orderS))"
    unfolding cN' cS'
  proof (rule run_equiv)
    show "length rasterN = length rasterS" using lN lS by simp
    show "\<forall>j<length rasterN. same_cell (rasterN ! j) (rasterS ! j)" using rel lN by simp
    show "errorStatistics (TestCase_new True orderN) = errorStatistics (TestCase_new False orderS)"
      by (simp add: TestCase_new_def)
    show "nodataMismatches (TestCase_new True orderN) = nodataMismatches (TestCase_new False orderS)"
      by (simp add: TestCase_new_def)
  qed
  assume inr: "all_in_raster coords"
  have cells: "\<forall>p \<in> set rasterN. nan_cell p"
  proof
    fix p assume "p \<in> set rasterN"
    then obtain j where "j < length rasterN" "p = rasterN ! j" by (auto simp: in_set_conv_nth)
    with rel lN have "same_cell p (rasterS ! j)" by simp
    then show "nan_cell p" by (rule same_cell_nan)
  qed
  have "length expectedResults = NUM_INTERPOLATION_POINTS * NUM_VERIFIED_ITERATIONS"
    using eN unfolding loadExpectedResults_def by (rule loadDoubles_length)
  then have er: "NUM_VERIFIED_ITERATIONS * NUM_INTERPOLATION_POINTS \<le> length expectedResults"
    by simp
  from nan_run_returns[OF lN cells inr er, of "TestCase_new True orderN"]
  show "\<exists>es nm. results_of (TestNaN_computeAndCompare H (TestCase_new True orderN)) =
                       Returns (es, nm) \<and>
                     length es = NUM_VERIFIED_ITERATIONS \<and> length nm = NUM_VERIFIED_ITERATIONS"
    unfolding cN' by (simp add: TestCase_new_def)
qed

theorem variants_produce_equal_results_witness:
  "all_in_raster (replicate 40000 (Finite 0)) \<and>
   results_of (TestNaN_computeAndCompare example_host (TestCase_new True big)) =
   results_of (TestNodata_computeAndCompare example_host (TestCase_new False little)) \<and>
   (\<exists>es nm. results_of (TestNaN_computeAndCompare example_host (TestCase_new True big)) =
              Returns (es, nm) \<and>
            length es = NUM_VERIFIED_ITERATIONS \<and> length nm = NUM_VERIFIED_ITERATIONS)"
proof -
  have rN: "loadRaster example_host (TestCase_new True big) =
        Returns (Some (replicate 480000 0x7FC00001))"
    by (rule example_raster_nan)
  have rS: "loadRaster example_host (TestCase_new False little) =
        Returns (Some (replicate 480000 0x461C4400))"
    by (rule example_raster_nodata)
  have cN: "loadCoordinates example_host (TestCase_new True big) =
        Returns (Some (replicate 40000 (Finite 0)))"
    unfolding loadCoordinates_def
    using example_doubles[of "coordinatesFile (TestCase_new True big)" "2 * NUM_INTERPOLATION_POINTS"]
    by (simp add: TestCase_new_def NUM_INTERPOLATION_POINTS_def)
  have cS: "loadCoordinates example_host (TestCase_new False little) =
        Returns (Some (replicate 40000 (Finite 0)))"
    unfolding loadCoordinates_def
    using example_doubles[of "coordinatesFile (TestCase_new False little)" "2 * NUM_INTERPOLATION_POINTS"]
    by (simp add: TestCase_new_def NUM_INTERPOLATION_POINTS_def)
  have eN: "loadExpectedResults example_host (TestCase_new True big) =
        Returns (Some (replicate 200000 (Finite 0)))"
    unfolding loadExpectedResults_def
    using example_doubles[of "expectedResultsFile (TestCase_new True big)"
        "NUM_INTERPOLATION_POINTS * NUM_VERIFIED_ITERATIONS"]
    by (simp add: TestCase_new_def NUM_INTERPOLATION_POINTS_def NUM_VERIFIED_ITERATIONS_def)
  have eS: "loadExpectedResults example_host (TestCase_new False little) =
        Returns (Some (replicate 200000 (Finite 0)))"
    unfolding loadExpectedResults_def
    using example_doubles[of "expectedResultsFile (TestCase_new False little)"
        "NUM_INTERPOLATION_POINTS * NUM_VERIFIED_ITERATIONS"]
    by (simp add: TestCase_new_def NUM_INTERPOLATION_POINTS_def NUM_VERIFIED_ITERATIONS_def)
  from variants_produce_equal_results [OF rN rS cN cS eN eS example_same_cells]
    example_coordinates
  show ?thesis by blast
qed

subsection \<open>Leaving through the guard\<close>

lemma nan_point_no_exit:
  assumes len: "length raster = nat (WIDTH * HEIGHT)"
    and cells: "\<forall>p \<in> set raster. nan_cell p"
    and idx: "2 * i + 1 < length (coordinates L)"
    and inr: "in_raster (coordinates L ! (2 * i)) (coordinates L ! (2 * i + 1))"
  shows "TestNaN_point raster er it i L \<noteq> Exits n"
proof -
  from locate_in_raster[OF idx inr] obtain offset where
    loc: "locate (coordinates L) i =
           Returns (coordinates L ! (2 * i), coordinates L ! (2 * i + 1),
                    fp_floor (coordinates L ! (2 * i)), fp_floor (coordinates L ! (2 * i + 1)), offset)"
    and off: "0 \<le> offset" "offset + WIDTH + 1 \<le> (HEIGHT - 1) * WIDTH + (WIDTH - 1)" by blast
  from off len have "0 \<le> offset \<and> offset + WIDTH + 1 < int (length raster)"
    by (simp add: WIDTH_def HEIGHT_def)
  then obtain p00 p01 p10 p11 where cor: "corners raster offset = Returns (p00, p01, p10, p11)"
    by (simp add: corners_eq)
  from corners_cells[OF cor] cells have c: "\<forall>p \<in> {p00, p01, p10, p11}. nan_cell p" by blast
  from nan_point_feedback[OF loc cor c, of er it] obtain G where
    b: "TestNaN_point raster er it i L =
          obind (load er (int (expectedResultCursor L))) (\<lambda>expected.
             Returns (advance i (coordinates L ! (2 * i)) (coordinates L ! (2 * i + 1))
               (if valid_sample p00 \<and> valid_sample p01 \<and> valid_sample p10 \<and> valid_sample p11
                then interpolate (float_of_bits p00) (float_of_bits p01)
                                 (float_of_bits p10) (float_of_bits p11)
                       (coordinates L ! (2 * i)) (coordinates L ! (2 * i + 1))
                       (fp_floor (coordinates L ! (2 * i))) (fp_floor (coordinates L ! (2 * i + 1)))
                else Finite 1)
               (G expected)))" by blast
  show ?thesis unfolding b by (simp add: load_def)
qed

lemma nodata_point_no_exit:
  assumes len: "length raster = nat (WIDTH * HEIGHT)"
    and cells: "\<forall>p \<in> set raster. sentinel_cell p"
    and idx: "2 * i + 1 < length (coordinates L)"
    and inr: "in_raster (coordinates L ! (2 * i)) (coordinates L ! (2 * i + 1))"
  shows "TestNodata_point raster er it i L \<noteq> Exits n"
proof -
  from locate_in_raster[OF idx inr] obtain offset where
    loc: "locate (coordinates L) i =
           Returns (coordinates L ! (2 * i), coordinates L ! (2 * i + 1),
                    fp_floor (coordinates L ! (2 * i)), fp_floor (coordinates L ! (2 * i + 1)), offset)"
    and off: "0 \<le> offset" "offset + WIDTH + 1 \<le> (HEIGHT - 1) * WIDTH + (WIDTH - 1)" by blast
  from off len have "0 \<le> offset \<and> offset + WIDTH + 1 < int (length raster)"
    by (simp add: WIDTH_def HEIGHT_def)
  then obtain p00 p01 p10 p11 where cor: "corners raster offset = Returns (p00, p01, p10, p11)"
    by (simp add: corners_eq)
  from corners_cells[OF cor] cells have c: "\<forall>p \<in> {p00, p01, p10, p11}. sentinel_cell p" by blast
  from nodata_point_feedback[OF loc cor c, of er it] obtain G where
    b: "TestNodata_point raster er it i L =
          obind (load er (int (expectedResultCursor L))) (\<lambda>expected.
             Returns (advance i (coordinates L ! (2 * i)) (coordinates L ! (2 * i + 1))
               (if valid_sample p00 \<and> valid_sample p01 \<and> valid_sample p10 \<and> valid_sample p11
                then interpolate (float_of_bits p00) (float_of_bits p01)
                                 (float_of_bits p10) (float_of_bits p11)
                       (coordinates L ! (2 * i)) (coordinates L ! (2 * i + 1))
                       (fp_floor (coordinates L ! (2 * i))) (fp_floor (coordinates L ! (2 * i + 1)))
                else Finite 1)
               (G expected)))" by blast
  show ?thesis unfolding b by (simp add: load_def)
qed

lemma points_loop_no_exit:
  assumes ne: "\<And>i L n. i < NUM_INTERPOLATION_POINTS \<Longrightarrow> all_in_raster (coordinates L) \<Longrightarrow>
                  body it i L \<noteq> Exits n"
    and st: "\<And>i L L'. body it i L = Returns L' \<Longrightarrow> stepped i L L'"
  shows "all_in_raster (coordinates L) \<Longrightarrow>
         points_loop body it i L \<noteq> Exits n \<and>
         (\<forall>L'. points_loop body it i L = Returns L' \<longrightarrow> all_in_raster (coordinates L'))"
proof (induction "NUM_INTERPOLATION_POINTS - i" arbitrary: i L)
  case 0
  then have "\<not> i < NUM_INTERPOLATION_POINTS" by simp
  then have "points_loop body it i L = Returns L" by (subst points_loop.simps) simp
  with 0 show ?case by simp
next
  case (Suc k)
  then have i: "i < NUM_INTERPOLATION_POINTS" by simp
  have unf: "points_loop body it i L =
        (case body it i L of Returns L1 \<Rightarrow> points_loop body it (i + 1) L1
         | Exits n \<Rightarrow> Exits n | Throws_bad_alloc \<Rightarrow> Throws_bad_alloc | Undefined \<Rightarrow> Undefined)"
    using i by (subst points_loop.simps) simp
  show ?case
  proof (cases "body it i L")
    case (Returns L1)
    from st[OF Returns] have "stepped i L L1" .
    then have inv1: "all_in_raster (coordinates L1)"
      using Suc.prems by (rule stepped_all_in_raster)
    from Suc.hyps(2) have k: "k = NUM_INTERPOLATION_POINTS - (i + 1)" by simp
    from Suc.hyps(1)[OF k inv1] show ?thesis unfolding unf Returns by simp
  next
    case (Exits m)
    with ne[OF i Suc.prems, of m] show ?thesis by simp
  next
    case Throws_bad_alloc
    then show ?thesis unfolding unf by simp
  next
    case Undefined
    then show ?thesis unfolding unf by simp
  qed
qed

lemma iterations_loop_no_exit:
  assumes ne: "\<And>it i L n. i < NUM_INTERPOLATION_POINTS \<Longrightarrow> all_in_raster (coordinates L) \<Longrightarrow>
                  body it i L \<noteq> Exits n"
    and st: "\<And>it i L L'. body it i L = Returns L' \<Longrightarrow> stepped i L L'"
  shows "all_in_raster (coordinates L) \<Longrightarrow> iterations_loop body it L \<noteq> Exits n"
proof (induction "NUM_VERIFIED_ITERATIONS - it" arbitrary: it L)
  case 0
  then have "\<not> it < NUM_VERIFIED_ITERATIONS" by simp
  then have "iterations_loop body it L = Returns L" by (subst iterations_loop.simps) simp
  then show ?case by simp
next
  case (Suc k)
  then have it: "it < NUM_VERIFIED_ITERATIONS" by simp
  let ?L0 = "L\<lparr>stats := statistics L ! it\<rparr>"
  have unf: "iterations_loop body it L =
        (case points_loop body it 0 ?L0 of
           Returns L' \<Rightarrow> iterations_loop body (it + 1)
               (L'\<lparr>statistics := (statistics L')[it := stats L']\<rparr>)
         | Exits n \<Rightarrow> Exits n | Throws_bad_alloc \<Rightarrow> Throws_bad_alloc | Undefined \<Rightarrow> Undefined)"
    using it by (subst iterations_loop.simps) simp
  have inv0: "all_in_raster (coordinates ?L0)" using Suc.prems by simp
  have pl: "points_loop body it 0 ?L0 \<noteq> Exits m \<and>
         (\<forall>L'. points_loop body it 0 ?L0 = Returns L' \<longrightarrow> all_in_raster (coordinates L'))" for m
  proof (rule points_loop_no_exit)
    show "\<And>i L n. i < NUM_INTERPOLATION_POINTS \<Longrightarrow> all_in_raster (coordinates L) \<Longrightarrow>
                  body it i L \<noteq> Exits n" by (rule ne)
    show "\<And>i L L'. body it i L = Returns L' \<Longrightarrow> stepped i L L'" by (rule st)
    show "all_in_raster (coordinates ?L0)" by (rule inv0)
  qed
  show ?case
  proof (cases "points_loop body it 0 ?L0")
    case (Returns L1)
    with pl have "all_in_raster (coordinates L1)" by simp
    then have inv2: "all_in_raster (coordinates (L1\<lparr>statistics := (statistics L1)[it := stats L1]\<rparr>))"
      by simp
    from Suc.hyps(2) have k: "k = NUM_VERIFIED_ITERATIONS - (it + 1)" by simp
    from Suc.hyps(1)[OF k inv2] show ?thesis unfolding unf Returns by simp
  next
    case (Exits m)
    with pl[of m] show ?thesis by simp
  next
    case Throws_bad_alloc
    then show ?thesis unfolding unf by simp
  next
    case Undefined
    then show ?thesis unfolding unf by simp
  qed
qed

subsection \<open>The example frame\<close>

lemma example_fetch:
  "fetch (replicate 480000 c) (coordinates example_frame) 0 =
     Returns (Finite 0, Finite 0, Finite 0, Finite 0, c, c, c, c)"
  by (simp add: example_frame_def base_offset_def out_of_bounds_def fetch_def locate_def
      corners_def load_def int32_def trunc_def WIDTH_def HEIGHT_def Let_def)

lemma example_nan_cells: "\<forall>p \<in> {0x7FC00001, 0x7FC00001, 0x7FC00001, 0x7FC00001 :: 32 word}. nan_cell p"
  unfolding nan_cell_def
  by (intro ballI disjI2 exI[of _ 1]) (simp add: nan_marker_def FIRST_QUIET_NAN_def)

lemma example_nan_raster: "\<forall>p \<in> set (replicate 480000 (0x7FC00001 :: 32 word)). nan_cell p"
  using example_nan_cells by simp

lemma example_nan_point:
  "TestNaN_point (replicate 480000 0x7FC00001) (replicate 200000 (Finite 0)) 0 0 example_frame =
     Returns (advance 0 (Finite 0) (Finite 0) (Finite 1) (count_mismatch 0 example_frame))"
proof -
  have n: "float_of_bits 0x7FC00001 = NaN"
    by (simp add: float_of_bits_def ieee_value_def)
  have i: "interpolate NaN NaN NaN NaN (Finite 0) (Finite 0) (Finite 0) (Finite 0) = NaN"
    by (rule interpolate_NaN) simp
  have m: "max_i32 (max_i32 0x7FC00001 0x7FC00001) (max_i32 0x7FC00001 0x7FC00001) =
           nan_marker 1"
    by (simp add: max_i32_def nan_marker_def FIRST_QUIET_NAN_def)
  have e: "expectedResultCursor example_frame = 0" by (simp add: example_frame_def)
  show ?thesis
    by (simp add: TestNaN_point_def example_fetch n i m nodata_of_marker e load_def fp_ne_def
        MISSING_VALUE_THRESHOLD_def)
qed

lemma example_first_iteration:
  "\<exists>L1. points_loop (TestNaN_point (replicate 480000 0x7FC00001) (replicate 200000 (Finite 0)))
           0 0 example_frame = Returns L1"
proof -
  have len: "length (replicate 480000 (0x7FC00001 :: 32 word)) = nat (WIDTH * HEIGHT)"
    by (simp add: WIDTH_def HEIGHT_def)
  have "\<exists>L'. points_loop (TestNaN_point (replicate 480000 0x7FC00001) (replicate 200000 (Finite 0)))
           0 0 example_frame = Returns L' \<and> all_in_raster (coordinates L') \<and>
              expectedResultCursor L' = expectedResultCursor example_frame + (NUM_INTERPOLATION_POINTS - 0) \<and>
              statistics L' = statistics example_frame \<and>
              length (mismatches L') = length (mismatches example_frame)"
  proof (rule points_loop_returns[where er = "replicate 200000 (Finite 0)"])
    fix i and L :: frame
    assume i: "i < NUM_INTERPOLATION_POINTS" and a: "all_in_raster (coordinates L)"
      and c: "expectedResultCursor L < length (replicate 200000 (Finite 0 :: fpval))"
    from i a have "2 * i + 1 < length (coordinates L)"
      "in_raster (coordinates L ! (2 * i)) (coordinates L ! (2 * i + 1))"
      by (simp_all add: all_in_raster_def)
    then show "\<exists>L'. TestNaN_point (replicate 480000 0x7FC00001) (replicate 200000 (Finite 0)) 0 i L
                 = Returns L'"
      using c by (intro nan_point_returns[OF len example_nan_raster])
  next
    fix i and L L' :: frame
    assume "TestNaN_point (replicate 480000 0x7FC00001) (replicate 200000 (Finite 0)) 0 i L
              = Returns L'"
    then show "stepped i L L'" by (rule nan_point_stepped[OF example_nan_raster])
  next
    show "all_in_raster (coordinates example_frame)"
      using example_coordinates by (simp add: example_frame_def)
    show "expectedResultCursor example_frame + (NUM_INTERPOLATION_POINTS - 0)
            \<le> length (replicate 200000 (Finite 0 :: fpval))"
      by (simp add: example_frame_def NUM_INTERPOLATION_POINTS_def)
  qed
  then show ?thesis by blast
qed

subsection \<open>The feedback rule\<close>

lemma fetch_parts:
  assumes "fetch raster coords i = Returns (x, y, xb, yb, p00, p01, p10, p11)"
  shows "\<exists>offset. locate coords i = Returns (x, y, xb, yb, offset) \<and>
           corners raster offset = Returns (p00, p01, p10, p11)"
  using fetch_Returns[OF assms] by auto

lemma point_feedback_form:
  assumes f: "fetch raster (coordinates L) i = Returns (x, y, xb, yb, p00, p01, p10, p11)"
    and v: "(\<forall>p \<in> {p00, p01, p10, p11}. nan_cell p) \<and>
              TestNaN_point raster er it i L = Returns L' \<or>
            (\<forall>p \<in> {p00, p01, p10, p11}. sentinel_cell p) \<and>
              TestNodata_point raster er it i L = Returns L'"
  shows "\<exists>K. keeps L K \<and>
           L' = advance i x y
                  (if valid_sample p00 \<and> valid_sample p01 \<and> valid_sample p10 \<and> valid_sample p11
                   then interpolate (float_of_bits p00) (float_of_bits p01)
                                    (float_of_bits p10) (float_of_bits p11) x y xb yb
                   else Finite 1) K"
proof -
  from fetch_parts[OF f] obtain offset where
    loc: "locate (coordinates L) i = Returns (x, y, xb, yb, offset)" and
    cor: "corners raster offset = Returns (p00, p01, p10, p11)" by blast
  from v show ?thesis
  proof (elim disjE conjE)
    assume c: "\<forall>p \<in> {p00, p01, p10, p11}. nan_cell p"
      and ret: "TestNaN_point raster er it i L = Returns L'"
    from nan_point_feedback[OF loc cor c, of er it] obtain G where
      G: "\<forall>e. keeps L (G e)" and
      b: "TestNaN_point raster er it i L =
          obind (load er (int (expectedResultCursor L))) (\<lambda>expected.
             Returns (advance i x y
               (if valid_sample p00 \<and> valid_sample p01 \<and> valid_sample p10 \<and> valid_sample p11
                then interpolate (float_of_bits p00) (float_of_bits p01)
                                 (float_of_bits p10) (float_of_bits p11) x y xb yb
                else Finite 1)
               (G expected)))" by blast
    from ret obtain e where "L' = advance i x y
               (if valid_sample p00 \<and> valid_sample p01 \<and> valid_sample p10 \<and> valid_sample p11
                then interpolate (float_of_bits p00) (float_of_bits p01)
                                 (float_of_bits p10) (float_of_bits p11) x y xb yb
                else Finite 1) (G e)"
      unfolding b obind_Returns_iff by auto
    with G show ?thesis by blast
  next
    assume c: "\<forall>p \<in> {p00, p01, p10, p11}. sentinel_cell p"
      and ret: "TestNodata_point raster er it i L = Returns L'"
    from nodata_point_feedback[OF loc cor c, of er it] obtain G where
      G: "\<forall>e. keeps L (G e)" and
      b: "TestNodata_point raster er it i L =
          obind (load er (int (expectedResultCursor L))) (\<lambda>expected.
             Returns (advance i x y
               (if valid_sample p00 \<and> valid_sample p01 \<and> valid_sample p10 \<and> valid_sample p11
                then interpolate (float_of_bits p00) (float_of_bits p01)
                                 (float_of_bits p10) (float_of_bits p11) x y xb yb
                else Finite 1)
               (G expected)))" by blast
    from ret obtain e where "L' = advance i x y
               (if valid_sample p00 \<and> valid_sample p01 \<and> valid_sample p10 \<and> valid_sample p11
                then interpolate (float_of_bits p00) (float_of_bits p01)
                                 (float_of_bits p10) (float_of_bits p11) x y xb yb
                else Finite 1) (G e)"
      unfolding b obind_Returns_iff by auto
    with G show ?thesis by blast
  qed
qed

text \<open>
  Claim C7. Whenever the body of the inner loop of either variant comes to its end for point
  \<open>i\<close>, on four cells of the data model, the coordinates it has read at \<open>2 * i\<close> and
  \<open>2 * i + 1\<close> are replaced by \<open>fmod(abs(x + r), WIDTH - 1)\<close> and
  \<open>fmod(abs(y + r), HEIGHT - 1)\<close>, and no other coordinate changes. Here \<open>r\<close> is the
  interpolated value when the four cells are valid samples, and 1 (not the reason code) when
  one of them is missing; it is the same expression for the NaN variant and for the sentinel
  variant.
\<close>

theorem feedback_uses_result_or_one:
  assumes f: "fetch raster (coordinates L) i = Returns (x, y, xb, yb, p00, p01, p10, p11)"
    and v: "(\<forall>p \<in> {p00, p01, p10, p11}. nan_cell p) \<and>
              TestNaN_point raster er it i L = Returns L' \<or>
            (\<forall>p \<in> {p00, p01, p10, p11}. sentinel_cell p) \<and>
              TestNodata_point raster er it i L = Returns L'"
  shows "x = coordinates L ! (2 * i) \<and> y = coordinates L ! (2 * i + 1) \<and>
         coordinates L' = (coordinates L)
           [2 * i := fp_fmod (fp_abs (fp_add x
               (if valid_sample p00 \<and> valid_sample p01 \<and> valid_sample p10 \<and> valid_sample p11
                then interpolate (float_of_bits p00) (float_of_bits p01)
                                 (float_of_bits p10) (float_of_bits p11) x y xb yb
                else Finite 1))) (Finite (of_int (WIDTH - 1))),
            2 * i + 1 := fp_fmod (fp_abs (fp_add y
               (if valid_sample p00 \<and> valid_sample p01 \<and> valid_sample p10 \<and> valid_sample p11
                then interpolate (float_of_bits p00) (float_of_bits p01)
                                 (float_of_bits p10) (float_of_bits p11) x y xb yb
                else Finite 1))) (Finite (of_int (HEIGHT - 1)))]"
proof -
  from fetch_parts[OF f] obtain offset where
    loc: "locate (coordinates L) i = Returns (x, y, xb, yb, offset)" by blast
  from locate_Returns[OF loc] have xy: "coordinates L ! (2 * i) = x" "coordinates L ! (2 * i + 1) = y"
    by blast+
  from point_feedback_form[OF f v] obtain K where K: "keeps L K" and
    L': "L' = advance i x y
                  (if valid_sample p00 \<and> valid_sample p01 \<and> valid_sample p10 \<and> valid_sample p11
                   then interpolate (float_of_bits p00) (float_of_bits p01)
                                    (float_of_bits p10) (float_of_bits p11) x y xb yb
                   else Finite 1) K" by blast
  from K have "coordinates K = coordinates L" by (simp add: keeps_def)
  with xy show ?thesis unfolding L' advance_fields by simp
qed

theorem feedback_uses_result_or_one_witness:
  "Finite 0 = coordinates example_frame ! (2 * 0) \<and>
   Finite 0 = coordinates example_frame ! (2 * 0 + 1) \<and>
   coordinates (advance 0 (Finite 0) (Finite 0) (Finite 1) (count_mismatch 0 example_frame)) =
     (coordinates example_frame)
       [2 * 0 := fp_fmod (fp_abs (fp_add (Finite 0)
          (if valid_sample 0x7FC00001 \<and> valid_sample 0x7FC00001 \<and>
              valid_sample 0x7FC00001 \<and> valid_sample 0x7FC00001
           then interpolate (float_of_bits 0x7FC00001) (float_of_bits 0x7FC00001)
                  (float_of_bits 0x7FC00001) (float_of_bits 0x7FC00001)
                  (Finite 0) (Finite 0) (Finite 0) (Finite 0)
           else Finite 1))) (Finite (of_int (WIDTH - 1))),
        2 * 0 + 1 := fp_fmod (fp_abs (fp_add (Finite 0)
          (if valid_sample 0x7FC00001 \<and> valid_sample 0x7FC00001 \<and>
              valid_sample 0x7FC00001 \<and> valid_sample 0x7FC00001
           then interpolate (float_of_bits 0x7FC00001) (float_of_bits 0x7FC00001)
                  (float_of_bits 0x7FC00001) (float_of_bits 0x7FC00001)
                  (Finite 0) (Finite 0) (Finite 0) (Finite 0)
           else Finite 1))) (Finite (of_int (HEIGHT - 1)))]"
proof -
  have v: "(\<forall>p \<in> {0x7FC00001, 0x7FC00001, 0x7FC00001, 0x7FC00001 :: 32 word}. nan_cell p) \<and>
              TestNaN_point (replicate 480000 0x7FC00001) (replicate 200000 (Finite 0)) 0 0
                example_frame =
              Returns (advance 0 (Finite 0) (Finite 0) (Finite 1) (count_mismatch 0 example_frame)) \<or>
            (\<forall>p \<in> {0x7FC00001, 0x7FC00001, 0x7FC00001, 0x7FC00001 :: 32 word}. sentinel_cell p) \<and>
              TestNodata_point (replicate 480000 0x7FC00001) (replicate 200000 (Finite 0)) 0 0
                example_frame =
              Returns (advance 0 (Finite 0) (Finite 0) (Finite 1) (count_mismatch 0 example_frame))"
    using example_nan_cells example_nan_point by blast
  show ?thesis by (rule feedback_uses_result_or_one[OF example_fetch v])
qed

subsection \<open>Coordinates after the first iteration\<close>

lemma point_stepped:
  assumes f: "fetch raster (coordinates L) i = Returns (x, y, xb, yb, p00, p01, p10, p11)"
    and v: "(\<forall>p \<in> {p00, p01, p10, p11}. nan_cell p) \<and>
              TestNaN_point raster er it i L = Returns L' \<or>
            (\<forall>p \<in> {p00, p01, p10, p11}. sentinel_cell p) \<and>
              TestNodata_point raster er it i L = Returns L'"
  shows "stepped i L L'"
proof -
  from fetch_parts[OF f] obtain offset where
    loc: "locate (coordinates L) i = Returns (x, y, xb, yb, offset)" by blast
  from point_feedback_form[OF f v] obtain K where K: "keeps L K" and
    L': "L' = advance i x y
                  (if valid_sample p00 \<and> valid_sample p01 \<and> valid_sample p10 \<and> valid_sample p11
                   then interpolate (float_of_bits p00) (float_of_bits p01)
                                    (float_of_bits p10) (float_of_bits p11) x y xb yb
                   else Finite 1) K" by blast
  have r: "bounded 67789 (if valid_sample p00 \<and> valid_sample p01 \<and> valid_sample p10 \<and> valid_sample p11
                then interpolate (float_of_bits p00) (float_of_bits p01)
                                 (float_of_bits p10) (float_of_bits p11) x y xb yb
                else Finite 1)"
    using interpolate_valid[OF loc] by simp
  have "length (coordinates L') = length (coordinates L) \<and>
        in_raster (coordinates L' ! (2 * i)) (coordinates L' ! (2 * i + 1)) \<and>
        (\<forall>j. j \<noteq> 2 * i \<longrightarrow> j \<noteq> 2 * i + 1 \<longrightarrow>
           coordinates L' ! j = coordinates L ! j)"
  proof -
    from locate_Returns[OF loc] have idx: "2 * i + 1 < length (coordinates L)" by blast
    from locate_bounded[OF loc] have bd: "bounded (2 ^ 31) x" "bounded (2 ^ 31) y" by simp_all
    have inr: "in_raster (fp_fmod (fp_abs (fp_add x (if valid_sample p00 \<and> valid_sample p01 \<and> valid_sample p10 \<and> valid_sample p11
                then interpolate (float_of_bits p00) (float_of_bits p01)
                                 (float_of_bits p10) (float_of_bits p11) x y xb yb
                else Finite 1))) (Finite (of_int (WIDTH - 1))))
                       (fp_fmod (fp_abs (fp_add y (if valid_sample p00 \<and> valid_sample p01 \<and> valid_sample p10 \<and> valid_sample p11
                then interpolate (float_of_bits p00) (float_of_bits p01)
                                 (float_of_bits p10) (float_of_bits p11) x y xb yb
                else Finite 1))) (Finite (of_int (HEIGHT - 1))))"
      using bd r by (rule feedback_in_raster)
    from K idx inr show ?thesis
      unfolding L' advance_fields keeps_def by (simp add: nth_list_update)
  qed
  moreover from K have "expectedResultCursor L' = expectedResultCursor L + 1"
    "statistics L' = statistics L" "length (mismatches L') = length (mismatches L)"
    unfolding L' advance_fields keeps_def by simp_all
  ultimately show ?thesis by (simp add: stepped_def)
qed

lemma body_stepped:
  assumes "body = TestNaN_point raster er \<and> (\<forall>p \<in> set raster. nan_cell p) \<or>
           body = TestNodata_point raster er \<and> (\<forall>p \<in> set raster. sentinel_cell p)"
    and "body it i L = Returns L'"
  shows "stepped i L L'"
  using assms nan_point_stepped nodata_point_stepped by blast

lemma body_no_exit:
  assumes "body = TestNaN_point raster er \<and> (\<forall>p \<in> set raster. nan_cell p) \<or>
           body = TestNodata_point raster er \<and> (\<forall>p \<in> set raster. sentinel_cell p)"
    and "length raster = nat (WIDTH * HEIGHT)"
    and "i < NUM_INTERPOLATION_POINTS" "all_in_raster (coordinates L)"
  shows "body it i L \<noteq> Exits n"
proof -
  from assms(3,4) have "2 * i + 1 < length (coordinates L)"
      "in_raster (coordinates L ! (2 * i)) (coordinates L ! (2 * i + 1))"
    by (simp_all add: all_in_raster_def)
  with assms(1,2) show ?thesis
    using nan_point_no_exit nodata_point_no_exit by blast
qed

text \<open>
  Claim C9. Whenever the body of the inner loop of either variant comes to its end for point
  \<open>i\<close>, on four cells of the data model, the new coordinates of the point are finite with
  \<open>0 \<le> x < WIDTH - 1\<close> and \<open>0 \<le> y < HEIGHT - 1\<close>, and the guard accepts them: their base offset
  is computed, and it lies in the raster with its three neighbours. Hence when the first pass
  over the points returns, on a raster of the data model, all coordinates are inside the
  raster, and from there on no iteration leaves through \<open>exit(1)\<close>.
\<close>

theorem feedback_keeps_coordinates_in_raster:
  "(fetch raster (coordinates L) i = Returns (x, y, xb, yb, p00, p01, p10, p11) \<and>
    ((\<forall>p \<in> {p00, p01, p10, p11}. nan_cell p) \<and>
       TestNaN_point raster er it i L = Returns L' \<or>
     (\<forall>p \<in> {p00, p01, p10, p11}. sentinel_cell p) \<and>
       TestNodata_point raster er it i L = Returns L') \<longrightarrow>
    in_raster (coordinates L' ! (2 * i)) (coordinates L' ! (2 * i + 1)) \<and>
    (\<exists>offset. base_offset (fp_floor (coordinates L' ! (2 * i)))
                          (fp_floor (coordinates L' ! (2 * i + 1))) = Returns offset \<and>
              0 \<le> offset \<and> offset + WIDTH + 1 \<le> (HEIGHT - 1) * WIDTH + (WIDTH - 1))) \<and>
   (length raster = nat (WIDTH * HEIGHT) \<and>
    (body = TestNaN_point raster er \<and> (\<forall>p \<in> set raster. nan_cell p) \<or>
     body = TestNodata_point raster er \<and> (\<forall>p \<in> set raster. sentinel_cell p)) \<and>
    length (coordinates L0) = 2 * NUM_INTERPOLATION_POINTS \<and>
    points_loop body it0 0 L0 = Returns L1 \<longrightarrow>
    all_in_raster (coordinates L1) \<and>
    (\<forall>it1 L2 n. coordinates L2 = coordinates L1 \<longrightarrow> iterations_loop body it1 L2 \<noteq> Exits n))"
proof (intro conjI impI)
  assume a: "fetch raster (coordinates L) i = Returns (x, y, xb, yb, p00, p01, p10, p11) \<and>
    ((\<forall>p \<in> {p00, p01, p10, p11}. nan_cell p) \<and>
       TestNaN_point raster er it i L = Returns L' \<or>
     (\<forall>p \<in> {p00, p01, p10, p11}. sentinel_cell p) \<and>
       TestNodata_point raster er it i L = Returns L')"
  then have "stepped i L L'" using point_stepped by blast
  then show inr: "in_raster (coordinates L' ! (2 * i)) (coordinates L' ! (2 * i + 1))"
    by (simp add: stepped_def)
  then show "\<exists>offset. base_offset (fp_floor (coordinates L' ! (2 * i)))
                          (fp_floor (coordinates L' ! (2 * i + 1))) = Returns offset \<and>
              0 \<le> offset \<and> offset + WIDTH + 1 \<le> (HEIGHT - 1) * WIDTH + (WIDTH - 1)"
    by (rule base_offset_in_raster)
next
  assume b: "length raster = nat (WIDTH * HEIGHT) \<and>
    (body = TestNaN_point raster er \<and> (\<forall>p \<in> set raster. nan_cell p) \<or>
     body = TestNodata_point raster er \<and> (\<forall>p \<in> set raster. sentinel_cell p)) \<and>
    length (coordinates L0) = 2 * NUM_INTERPOLATION_POINTS \<and>
    points_loop body it0 0 L0 = Returns L1"
  then have len: "length raster = nat (WIDTH * HEIGHT)"
    and bd: "body = TestNaN_point raster er \<and> (\<forall>p \<in> set raster. nan_cell p) \<or>
             body = TestNodata_point raster er \<and> (\<forall>p \<in> set raster. sentinel_cell p)"
    and l0: "length (coordinates L0) = 2 * NUM_INTERPOLATION_POINTS"
    and ret: "points_loop body it0 0 L0 = Returns L1" by blast+
  have st: "\<And>it i L L'. body it i L = Returns L' \<Longrightarrow> stepped i L L'"
    using bd by (rule body_stepped)
  have "(\<forall>j<NUM_INTERPOLATION_POINTS.
            in_raster (coordinates L1 ! (2 * j)) (coordinates L1 ! (2 * j + 1))) \<and>
         length (coordinates L1) = length (coordinates L0)"
  proof (rule points_loop_establishes)
    show "\<And>i L L'. body it0 i L = Returns L' \<Longrightarrow> stepped i L L'" by (rule st)
    show "points_loop body it0 0 L0 = Returns L1" by (rule ret)
    show "\<forall>j<0. in_raster (coordinates L0 ! (2 * j)) (coordinates L0 ! (2 * j + 1))" by simp
  qed
  with l0 show inv: "all_in_raster (coordinates L1)" by (simp add: all_in_raster_def)
  show "\<forall>it1 L2 n. coordinates L2 = coordinates L1 \<longrightarrow> iterations_loop body it1 L2 \<noteq> Exits n"
  proof (intro allI impI)
    fix it1 n and L2 :: frame
    assume "coordinates L2 = coordinates L1"
    with inv have inv2: "all_in_raster (coordinates L2)" by simp
    show "iterations_loop body it1 L2 \<noteq> Exits n"
    proof (rule iterations_loop_no_exit)
      show "\<And>it i L n. i < NUM_INTERPOLATION_POINTS \<Longrightarrow> all_in_raster (coordinates L) \<Longrightarrow>
                  body it i L \<noteq> Exits n"
        using bd len by (rule body_no_exit)
      show "\<And>it i L L'. body it i L = Returns L' \<Longrightarrow> stepped i L L'" by (rule st)
      show "all_in_raster (coordinates L2)" by (rule inv2)
    qed
  qed
qed

theorem feedback_keeps_coordinates_in_raster_witness:
  "(in_raster
      (coordinates (advance 0 (Finite 0) (Finite 0) (Finite 1) (count_mismatch 0 example_frame))
         ! (2 * 0))
      (coordinates (advance 0 (Finite 0) (Finite 0) (Finite 1) (count_mismatch 0 example_frame))
         ! (2 * 0 + 1)) \<and>
    (\<exists>offset.
       base_offset
         (fp_floor (coordinates
            (advance 0 (Finite 0) (Finite 0) (Finite 1) (count_mismatch 0 example_frame)) ! (2 * 0)))
         (fp_floor (coordinates
            (advance 0 (Finite 0) (Finite 0) (Finite 1) (count_mismatch 0 example_frame)) ! (2 * 0 + 1)))
         = Returns offset \<and>
       0 \<le> offset \<and> offset + WIDTH + 1 \<le> (HEIGHT - 1) * WIDTH + (WIDTH - 1))) \<and>
   (\<exists>L1. points_loop (TestNaN_point (replicate 480000 0x7FC00001) (replicate 200000 (Finite 0)))
            0 0 example_frame = Returns L1 \<and>
         all_in_raster (coordinates L1) \<and>
         (\<forall>it1 L2 n. coordinates L2 = coordinates L1 \<longrightarrow>
            iterations_loop (TestNaN_point (replicate 480000 0x7FC00001)
              (replicate 200000 (Finite 0))) it1 L2 \<noteq> Exits n))"
proof -
  have v: "(\<forall>p \<in> {0x7FC00001, 0x7FC00001, 0x7FC00001, 0x7FC00001 :: 32 word}. nan_cell p) \<and>
              TestNaN_point (replicate 480000 0x7FC00001) (replicate 200000 (Finite 0)) 0 0
                example_frame =
              Returns (advance 0 (Finite 0) (Finite 0) (Finite 1) (count_mismatch 0 example_frame)) \<or>
            (\<forall>p \<in> {0x7FC00001, 0x7FC00001, 0x7FC00001, 0x7FC00001 :: 32 word}. sentinel_cell p) \<and>
              TestNodata_point (replicate 480000 0x7FC00001) (replicate 200000 (Finite 0)) 0 0
                example_frame =
              Returns (advance 0 (Finite 0) (Finite 0) (Finite 1) (count_mismatch 0 example_frame))"
    using example_nan_cells example_nan_point by blast
  from example_first_iteration obtain L1 where
    ret: "points_loop (TestNaN_point (replicate 480000 0x7FC00001) (replicate 200000 (Finite 0)))
            0 0 example_frame = Returns L1" by blast
  have len: "length (replicate 480000 (0x7FC00001 :: 32 word)) = nat (WIDTH * HEIGHT)"
    by (simp add: WIDTH_def HEIGHT_def)
  have l0: "length (coordinates example_frame) = 2 * NUM_INTERPOLATION_POINTS"
    by (simp add: example_frame_def NUM_INTERPOLATION_POINTS_def)
  have bd: "TestNaN_point (replicate 480000 0x7FC00001) (replicate 200000 (Finite 0)) =
              TestNaN_point (replicate 480000 0x7FC00001) (replicate 200000 (Finite 0)) \<and>
            (\<forall>p \<in> set (replicate 480000 (0x7FC00001 :: 32 word)). nan_cell p) \<or>
            TestNaN_point (replicate 480000 0x7FC00001) (replicate 200000 (Finite 0)) =
              TestNodata_point (replicate 480000 0x7FC00001) (replicate 200000 (Finite 0)) \<and>
            (\<forall>p \<in> set (replicate 480000 (0x7FC00001 :: 32 word)). sentinel_cell p)"
    using example_nan_raster by blast
  from feedback_keeps_coordinates_in_raster [where raster = "replicate 480000 0x7FC00001" and er = "replicate 200000 (Finite 0)"
      and L = example_frame and i = 0 and it = 0
      and L' = "advance 0 (Finite 0) (Finite 0) (Finite 1) (count_mismatch 0 example_frame)"
      and x = "Finite 0" and y = "Finite 0" and xb = "Finite 0" and yb = "Finite 0"
      and ?p00.0 = "0x7FC00001" and ?p01.0 = "0x7FC00001" and ?p10.0 = "0x7FC00001"
      and ?p11.0 = "0x7FC00001"
      and body = "TestNaN_point (replicate 480000 0x7FC00001) (replicate 200000 (Finite 0))"
      and ?L0.0 = example_frame and ?it0.0 = 0 and ?L1.0 = L1]
    example_fetch v len bd l0 ret
  show ?thesis by blast
qed

end
